theory Spec2Isabelle
  imports Main
begin

section \<open>Texts\<close>

text \<open>
  A Python \<open>str\<close> is a sequence of code points. The development reads a \<open>char\<close> as one
  code point in the range 0..255, so a text is a \<open>char list\<close> and \<open>length\<close> counts what
  Python's \<open>len\<close> counts. On this alphabet the character classes below are the ones
  Python uses: \<open>\s\<close> and \<open>str.strip()\<close> share one whitespace test, \<open>\d\<close> accepts the
  ten decimal digits, and case-insensitive comparison is equality after lowering.
  Texts with code points above 255 are outside the development.
\<close>

type_synonym str = "char list"

definition newline :: char where
  "newline = CHR 0x0A"

definition is_space :: "char \<Rightarrow> bool" where
  "is_space c = (c \<in> set [CHR 0x09, CHR 0x0A, CHR 0x0B, CHR 0x0C, CHR 0x0D,
                            CHR 0x1C, CHR 0x1D, CHR 0x1E, CHR 0x1F, CHR 0x20,
                            CHR 0x85, CHR 0xA0])"

definition is_digit :: "char \<Rightarrow> bool" where
  "is_digit c = (c \<in> set ''0123456789'')"

definition lower_char :: "char \<Rightarrow> char" where
  "lower_char c =
     (let n = (of_char c :: nat)
      in if (65 \<le> n \<and> n \<le> 90) \<or> (192 \<le> n \<and> n \<le> 222 \<and> n \<noteq> 215)
         then char_of (n + 32) else c)"

definition lower :: "str \<Rightarrow> str" where
  "lower s = map lower_char s"

definition ci_eq :: "char \<Rightarrow> char \<Rightarrow> bool" where
  "ci_eq p c = (lower_char c = lower_char p)"

definition strip :: "str \<Rightarrow> str" where
  "strip s = rev (dropWhile is_space (rev (dropWhile is_space s)))"

fun startswith :: "str \<Rightarrow> str \<Rightarrow> bool" where
  "startswith s [] = True"
| "startswith [] (p # ps) = False"
| "startswith (c # cs) (p # ps) = (c = p \<and> startswith cs ps)"

fun contains :: "str \<Rightarrow> str \<Rightarrow> bool" where
  "contains [] p = (p = [])"
| "contains (c # cs) p = (startswith (c # cs) p \<or> contains cs p)"

section \<open>Section extraction\<close>

text \<open>
  \<open>extract_section\<close> (nested in \<open>display_results\<close>) searches the text with
  \<^verbatim>\<open>(?:^|\n)\s*\*\*(\d+\.\s+)?NAME\*\*(.*?)(?=\n\s*\*\*(\d+\.\s+)?.*?\*\*|\Z)\<close>
  under \<open>re.DOTALL | re.IGNORECASE\<close>, where \<open>NAME\<close> is \<open>re.escape(section_name)\<close>.
  The functions below follow the pattern piece by piece, in the order in which the
  backtracking matcher tries its alternatives. Each returns the rest of the text after the
  piece it matched.
\<close>

text \<open>\<^verbatim>\<open>\*\*\<close>: two literal asterisks.\<close>

fun match_stars :: "str \<Rightarrow> str option" where
  "match_stars (a # b # r) = (if a = CHR ''*'' \<and> b = CHR ''*'' then Some r else None)"
| "match_stars _ = None"

text \<open>\<open>re.escape(section_name)\<close> under \<open>IGNORECASE\<close>: the name, letter case ignored.\<close>

fun match_name :: "str \<Rightarrow> str \<Rightarrow> str option" where
  "match_name [] s = Some s"
| "match_name (p # ps) [] = None"
| "match_name (p # ps) (c # cs) = (if ci_eq p c then match_name ps cs else None)"

text \<open>\<^verbatim>\<open>NAME\*\*\<close>: the name and the closing asterisks of the heading.\<close>

definition match_name_stars :: "str \<Rightarrow> str \<Rightarrow> str option" where
  "match_name_stars name s =
     (case match_name name s of None \<Rightarrow> None | Some r \<Rightarrow> match_stars r)"

text \<open>
  \<^verbatim>\<open>(\d+\.\s+)?\<close>: the positions at which the matcher continues after the optional
  numbering, in the order it tries them. \<^verbatim>\<open>\d+\<close> takes every digit (after fewer digits the
  next character is a digit, not the dot); \<^verbatim>\<open>\s+\<close> takes all the whitespace first and
  gives it back one character at a time, down to one; last, the group is skipped.
\<close>

definition numbering_ends :: "str \<Rightarrow> str list" where
  "numbering_ends s =
     (let ds = takeWhile is_digit s
      in if ds = [] then []
         else (case dropWhile is_digit s of
                 [] \<Rightarrow> []
               | d # r \<Rightarrow>
                   if d = CHR ''.''
                   then map (\<lambda>k. drop k r) (rev [1 ..< Suc (length (takeWhile is_space r))])
                   else []))
     @ [s]"

text \<open>The first alternative that lets the rest of the pattern match.\<close>

fun first_match :: "('a \<Rightarrow> 'b option) \<Rightarrow> 'a list \<Rightarrow> 'b option" where
  "first_match f [] = None"
| "first_match f (x # xs) = (case f x of Some r \<Rightarrow> Some r | None \<Rightarrow> first_match f xs)"

text \<open>
  \<^verbatim>\<open>\s*\*\*(\d+\.\s+)?NAME\*\*\<close>: \<^verbatim>\<open>\s*\<close> takes all the whitespace (after less of it
  the next character is whitespace, not an asterisk).
\<close>

definition match_heading :: "str \<Rightarrow> str \<Rightarrow> str option" where
  "match_heading name s =
     (case match_stars (dropWhile is_space s) of
        None \<Rightarrow> None
      | Some r \<Rightarrow> first_match (match_name_stars name) (numbering_ends r))"

text \<open>
  \<^verbatim>\<open>(?:^|\n)\<close> and the heading, tried at one position of the text: \<open>at_start\<close> says
  whether the position is the beginning of the text, where \<^verbatim>\<open>^\<close> matches (there is no
  \<open>MULTILINE\<close> flag).
\<close>

definition match_at :: "bool \<Rightarrow> str \<Rightarrow> str \<Rightarrow> str option" where
  "match_at at_start name s =
     (case (if at_start then match_heading name s else None) of
        Some r \<Rightarrow> Some r
      | None \<Rightarrow>
          (case s of
             [] \<Rightarrow> None
           | c # cs \<Rightarrow> if c = newline then match_heading name cs else None))"

text \<open>\<open>re.search\<close>: the leftmost position at which the pattern matches.\<close>

fun search_heading :: "bool \<Rightarrow> str \<Rightarrow> str \<Rightarrow> str option" where
  "search_heading at_start name [] = match_at at_start name []"
| "search_heading at_start name (c # cs) =
     (case match_at at_start name (c # cs) of
        Some r \<Rightarrow> Some r
      | None \<Rightarrow> search_heading False name cs)"

text \<open>
  \<^verbatim>\<open>.*?\*\*\<close> inside the lookahead: under \<open>DOTALL\<close> the lazy \<^verbatim>\<open>.*?\<close> steps over any
  character until two asterisks follow.
\<close>

fun stars_ahead :: "str \<Rightarrow> bool" where
  "stars_ahead [] = False"
| "stars_ahead (c # cs) = (match_stars (c # cs) \<noteq> None \<or> stars_ahead cs)"

text \<open>\<^verbatim>\<open>\n\s*\*\*(\d+\.\s+)?.*?\*\*\<close>: the first alternative of the lookahead.\<close>

definition heading_ahead :: "str \<Rightarrow> bool" where
  "heading_ahead s =
     (case s of
        [] \<Rightarrow> False
      | c # cs \<Rightarrow>
          c = newline \<and>
          (case match_stars (dropWhile is_space cs) of
             None \<Rightarrow> False
           | Some r \<Rightarrow> list_ex stars_ahead (numbering_ends r)))"

text \<open>The lookahead: a heading ahead, or \<^verbatim>\<open>\Z\<close>, the end of the text.\<close>

definition lookahead :: "str \<Rightarrow> bool" where
  "lookahead s = (heading_ahead s \<or> s = [])"

text \<open>
  \<^verbatim>\<open>(.*?)\<close> before the lookahead: group 2 is the shortest stretch of text after which
  the lookahead holds.
\<close>

fun lazy_body :: "str \<Rightarrow> str" where
  "lazy_body [] = []"
| "lazy_body (c # cs) = (if lookahead (c # cs) then [] else c # lazy_body cs)"

text \<open>\<open>re.search(pattern, text, ...)\<close> and \<open>match.group(2)\<close>: \<open>None\<close> when there is no match.\<close>

definition search_section :: "str \<Rightarrow> str \<Rightarrow> str option" where
  "search_section text section_name =
     (case search_heading True section_name text of
        None \<Rightarrow> None
      | Some r \<Rightarrow> Some (lazy_body r))"

definition extract_section :: "str \<Rightarrow> str \<Rightarrow> str option" where
  "extract_section text section_name =
     (case search_section text section_name of
        Some group2 \<Rightarrow>
          (let content = strip group2
           in if content = [] \<or> startswith content ''**'' then None else Some content)
      | None \<Rightarrow> None)"


section \<open>What the specification asks of section extraction\<close>

text \<open>
  The notions of the specification, written without the functions of the matcher, so
  that the statements about \<open>extract_section\<close> compare two descriptions.

  Letter case is given by a table: the 26 letters of ASCII and the 30 letters of Latin-1
  that come in two cases. Two texts are the same up to case when they agree after every
  capital of the table is replaced by its small letter.
\<close>

definition upper_letters :: str where
  "upper_letters = ''ABCDEFGHIJKLMNOPQRSTUVWXYZ'' @ [
        CHR 0xC0, CHR 0xC1, CHR 0xC2, CHR 0xC3, CHR 0xC4, CHR 0xC5,
        CHR 0xC6, CHR 0xC7, CHR 0xC8, CHR 0xC9, CHR 0xCA, CHR 0xCB,
        CHR 0xCC, CHR 0xCD, CHR 0xCE, CHR 0xCF, CHR 0xD0, CHR 0xD1,
        CHR 0xD2, CHR 0xD3, CHR 0xD4, CHR 0xD5, CHR 0xD6, CHR 0xD8,
        CHR 0xD9, CHR 0xDA, CHR 0xDB, CHR 0xDC, CHR 0xDD, CHR 0xDE]"

definition lower_letters :: str where
  "lower_letters = ''abcdefghijklmnopqrstuvwxyz'' @ [
        CHR 0xE0, CHR 0xE1, CHR 0xE2, CHR 0xE3, CHR 0xE4, CHR 0xE5,
        CHR 0xE6, CHR 0xE7, CHR 0xE8, CHR 0xE9, CHR 0xEA, CHR 0xEB,
        CHR 0xEC, CHR 0xED, CHR 0xEE, CHR 0xEF, CHR 0xF0, CHR 0xF1,
        CHR 0xF2, CHR 0xF3, CHR 0xF4, CHR 0xF5, CHR 0xF6, CHR 0xF8,
        CHR 0xF9, CHR 0xFA, CHR 0xFB, CHR 0xFC, CHR 0xFD, CHR 0xFE]"

definition fold_case :: "char \<Rightarrow> char" where
  "fold_case c =
     (case map_of (zip upper_letters lower_letters) c of Some l \<Rightarrow> l | None \<Rightarrow> c)"

definition same_ignoring_case :: "str \<Rightarrow> str \<Rightarrow> bool" where
  "same_ignoring_case a b = (map fold_case a = map fold_case b)"

text \<open>A numbering: digits, a dot, whitespace.\<close>

definition is_numbering :: "str \<Rightarrow> bool" where
  "is_numbering num =
     (takeWhile is_digit num \<noteq> [] \<and>
      (case dropWhile is_digit num of
         [] \<Rightarrow> False
       | d # sp \<Rightarrow> d = CHR ''.'' \<and> sp \<noteq> [] \<and> list_all is_space sp))"

text \<open>
  \<open>headed name s r\<close>: the text \<open>s\<close> begins with optional whitespace and a bolded,
  optionally numbered heading whose words are \<open>name\<close> up to case, and \<open>r\<close> is what
  follows the heading.
\<close>

definition headed :: "str \<Rightarrow> str \<Rightarrow> str \<Rightarrow> bool" where
  "headed name s r =
     (\<exists>ws num n. s = ws @ ''**'' @ num @ n @ ''**'' @ r \<and> list_all is_space ws \<and>
        (num = [] \<or> is_numbering num) \<and> same_ignoring_case n name)"

text \<open>A line starts at the beginning of the text and after every newline.\<close>

definition line_start :: "str \<Rightarrow> bool" where
  "line_start pre = (pre = [] \<or> last pre = newline)"

text \<open>
  \<open>first_heading name text r\<close>: \<open>r\<close> follows the first heading for \<open>name\<close> in the text, the
  one on the earliest line start from which a heading for \<open>name\<close> is reached.
\<close>

definition first_heading :: "str \<Rightarrow> str \<Rightarrow> str \<Rightarrow> bool" where
  "first_heading name text r =
     (\<exists>pre s. text = pre @ s \<and> line_start pre \<and> headed name s r \<and>
        (\<forall>p1 p2. pre = p1 @ p2 \<and> p2 \<noteq> [] \<and> line_start p1 \<longrightarrow>
           (\<forall>r'. \<not> headed name (p2 @ s) r')))"

text \<open>
  A bolded heading begins at \<open>s\<close>: a newline, optional whitespace, two asterisks, and two
  asterisks again further on (the numbering being optional, it is part of what lies
  between them).
\<close>

definition bold_heading_at :: "str \<Rightarrow> bool" where
  "bold_heading_at s =
     (\<exists>ws inner rest. s = newline # ws @ ''**'' @ inner @ ''**'' @ rest \<and>
        list_all is_space ws)"

text \<open>
  \<open>section_body r body\<close>: \<open>body\<close> is the text from the start of \<open>r\<close> up to the next bolded
  heading, or up to the end of the text when no heading follows.
\<close>

definition section_body :: "str \<Rightarrow> str \<Rightarrow> bool" where
  "section_body r body =
     (\<exists>post. r = body @ post \<and> (post = [] \<or> bold_heading_at post) \<and>
        (\<forall>k < length body. \<not> bold_heading_at (drop k body @ post)))"

text \<open>\<open>stripped body content\<close>: \<open>content\<close> is \<open>body\<close> without the whitespace at its two ends.\<close>

definition stripped :: "str \<Rightarrow> str \<Rightarrow> bool" where
  "stripped body content =
     (\<exists>a b. body = a @ content @ b \<and> list_all is_space a \<and> list_all is_space b \<and>
        (content \<noteq> [] \<longrightarrow> \<not> is_space (hd content) \<and> \<not> is_space (last content)))"

text \<open>
  \<open>section_of title text content\<close>: \<open>content\<close> is the section of \<open>title\<close> in the text, as the
  specification describes it.
\<close>

definition section_of :: "str \<Rightarrow> str \<Rightarrow> str \<Rightarrow> bool" where
  "section_of title text content =
     (\<exists>r body. first_heading title text r \<and> section_body r body \<and> stripped body content)"

text \<open>
  A title that begins with neither whitespace nor a digit, as the four titles of
  \<open>display_results\<close> do: then a heading can be read in one way only.
\<close>

definition plain_title :: "str \<Rightarrow> bool" where
  "plain_title title = (title \<noteq> [] \<and> \<not> is_space (hd title) \<and> \<not> is_digit (hd title))"

definition example_response :: str where
  "example_response =
     ''**1. Skills to Highlight**'' @ [newline] @ ''Python'' @ [newline] @
     ''**2. Projects to Showcase**'' @ [newline] @ ''Proj A''"

text \<open>A response whose last line opens a bold that is never closed.\<close>

definition unclosed_response :: str where
  "unclosed_response = ''**A**'' @ [newline] @ ''x'' @ [newline] @ ''**y''"

section \<open>Displaying the analysis\<close>

text \<open>
  Streamlit calls are effects; the model returns them as a list of events in the order
  the calls are made. An expander holds the events emitted inside its \<open>with\<close> block.
  Layout arguments (\<open>height\<close>, \<open>icon\<close>) and the pictographs that open some captions are
  left out: they lie outside the alphabet of the development.
\<close>

datatype ui_event =
    St_Subheader str
  | St_Error str
  | St_Warning str
  | St_Markdown str
  | St_Text_Area str str str
  | St_Expander str bool "ui_event list"
  | Sidebar_Warning str
  | Sidebar_Info str
  | Sidebar_Caption str

definition quote :: "str \<Rightarrow> str" where
  "quote s = [CHR 0x27] @ s @ [CHR 0x27]"

text \<open>\<open>s.replace(' ', '_')\<close>.\<close>

definition replace_spaces :: "str \<Rightarrow> str" where
  "replace_spaces s = map (\<lambda>c. if c = CHR '' '' then CHR ''_'' else c) s"

definition sections_to_display :: "(str \<times> bool) list" where
  "sections_to_display =
     [(''Skills to Highlight'', True),
      (''Projects to Showcase'', True),
      (''Resume Objective'', True),
      (''Interview Preparation Tips'', True)]"

text \<open>One round of the loop over the sections: the expander, and 1 if the section was found.\<close>

definition display_section :: "str \<Rightarrow> str \<times> bool \<Rightarrow> ui_event \<times> nat" where
  "display_section analysis_text sec =
     (let section_title = fst sec; expanded_default = snd sec;
          section_content = extract_section analysis_text section_title
      in case section_content of
           Some c \<Rightarrow>
             if c \<noteq> []
             then (St_Expander section_title expanded_default
                     (St_Markdown c #
                      (if section_title = ''Resume Objective''
                       then [St_Text_Area ''Copy-paste ready objective:'' c
                               (''copy_'' @ replace_spaces (lower section_title))]
                       else [])), 1)
             else (St_Expander section_title expanded_default
                     [St_Warning (''Could not extract '' @ quote section_title @
                        '' section from the AI response. Check the raw response below for formatting issues.'')], 0)
         | None \<Rightarrow>
             (St_Expander section_title expanded_default
                [St_Warning (''Could not extract '' @ quote section_title @
                   '' section from the AI response. Check the raw response below for formatting issues.'')], 0))"

fun display_sections :: "str \<Rightarrow> (str \<times> bool) list \<Rightarrow> nat \<Rightarrow> ui_event list \<times> nat" where
  "display_sections analysis_text [] sections_found_count = ([], sections_found_count)"
| "display_sections analysis_text (sec # secs) sections_found_count =
     (let (ev, found) = display_section analysis_text sec;
          (evs, n) = display_sections analysis_text secs (sections_found_count + found)
      in (ev # evs, n))"

definition raw_fallback :: "str \<Rightarrow> ui_event" where
  "raw_fallback analysis_text =
     St_Expander ''Show Raw Gemini Response (Parsing Failed)'' True
       [St_Text_Area ''Raw Response'' analysis_text ''raw_response_fallback_display'']"

definition raw_response :: "str \<Rightarrow> ui_event" where
  "raw_response analysis_text =
     St_Expander ''Show Raw Gemini Response'' False
       [St_Text_Area ''Raw Response from AI'' analysis_text ''raw_response_main_display'']"

definition display_results :: "str \<Rightarrow> ui_event list" where
  "display_results analysis_text =
     St_Subheader ''Analysis Results'' #
     (if startswith analysis_text ''Error:'' \<or>
         contains analysis_text ''An error occurred during Gemini analysis:''
      then [St_Error (''Analysis failed: '' @ analysis_text)]
      else
        (let (evs, sections_found_count) =
               display_sections analysis_text sections_to_display 0
         in evs @
            (if sections_found_count = 0 \<and> analysis_text \<noteq> [] \<and>
                \<not> startswith analysis_text ''Error:''
             then [St_Warning ''Could not parse structured sections from the AI response. Displaying raw response below:'',
                   raw_fallback analysis_text]
             else if analysis_text \<noteq> [] then [raw_response analysis_text]
             else [])))"


section \<open>Fetching repositories\<close>

text \<open>The dictionary built for each repository: \<open>name\<close>, \<open>description\<close>, \<open>readme\<close>.\<close>

record repo_info =
  info_name :: str
  info_description :: str
  info_readme :: str

text \<open>
  The GitHub client is an external service; the model takes its answers as data.
  \<open>RateLimitExceededException\<close> and \<open>UnknownObjectException\<close> are the two exceptions the
  source names; any other carries \<open>type(e).__name__\<close> and \<open>str(e)\<close>.
\<close>

datatype gh_exception =
    RateLimitExceededException
  | UnknownObjectException
  | Other_Exception str str

text \<open>
  What \<open>repo.get_readme()\<close> does: raise \<open>UnknownObjectException\<close> (no README), raise
  something else, or return a file whose \<open>content\<close> is base64 text.
\<close>

datatype readme_outcome =
    Readme_Unknown_Object
  | Readme_Exception
  | Readme_Content str

record repo =
  repo_name :: str
  repo_description :: "str option"
  repo_fork :: bool
  get_readme :: readme_outcome

text \<open>
  The paginated list \<open>user.get_repos(...)\<close> returns is read lazily: iterating it yields
  repositories and may raise while fetching a further page.
\<close>

datatype paginated = Page_End | Page_Item repo paginated | Page_Raise gh_exception

record gh_user =
  get_repos :: "str \<Rightarrow> str \<Rightarrow> paginated"

record github =
  get_rate_limit :: "gh_exception + nat \<times> nat"
  get_user :: "str \<Rightarrow> gh_exception + gh_user"

text \<open>
  What the function reads from outside: \<open>st.secrets\<close> (\<open>None\<close> when reading it raises,
  as it does without a secrets file), \<open>os.environ\<close>, the client \<open>Github(token)\<close> or
  \<open>Github()\<close>, the two library decoders (\<open>base64.b64decode\<close> raises on malformed
  input; \<open>bytes.decode('utf-8', errors='ignore')\<close> never does), and \<open>icon_error\<close>:
  \<open>type(e).__name__\<close> and \<open>str(e)\<close> of the exception with which Streamlit rejects the
  \<open>icon\<close> argument of line 59 (see \<open>sidebar_warning_icon\<close> below).
\<close>

record environment =
  secrets :: "(str \<rightharpoonup> str) option"
  environ :: "str \<rightharpoonup> str"
  Github :: "str option \<Rightarrow> github"
  b64decode :: "str \<Rightarrow> str option"
  decode_utf8_ignore :: "str \<Rightarrow> str"
  icon_error :: "str \<times> str"

text \<open>Python truth of an optional string: \<open>None\<close> and \<open>""\<close> are false.\<close>

definition truthy :: "str option \<Rightarrow> bool" where
  "truthy t = (case t of None \<Rightarrow> False | Some s \<Rightarrow> s \<noteq> [])"

text \<open>Lines 39 to 49: the value of \<open>github_token\<close> when the \<open>try\<close> block is entered.\<close>

definition github_token :: "environment \<Rightarrow> str option \<Rightarrow> str option" where
  "github_token env github_token_from_input =
     (let t1 = github_token_from_input;
          t2 = (if \<not> truthy t1
                then (case secrets env of
                        None \<Rightarrow> t1
                      | Some m \<Rightarrow> (case m ''GITHUB_TOKEN'' of None \<Rightarrow> t1 | Some v \<Rightarrow> Some v))
                else t1);
          t3 = (if \<not> truthy t2 then environ env ''GITHUB_TOKEN'' else t2)
      in t3)"

text \<open>\<open>str\<close> of a natural number.\<close>

function str_nat :: "nat \<Rightarrow> str" where
  "str_nat n =
     (if n < 10 then [char_of (48 + n)] else str_nat (n div 10) @ [char_of (48 + n mod 10)])"
  by pat_completeness auto
termination
  by (relation "measure id") auto

text \<open>
  Lines 52 to 62: the client, and the unauthenticated branch.
\<close>

definition no_token_warning :: str where
  "no_token_warning =
     ''No GitHub token provided (checked input, secrets & env var). '' @
     ''Using unauthenticated access (low rate limits: ~60/hr). '' @
     ''May hit '' @ [CHR 0x27] @ ''Rate Limit Exceeded'' @ [CHR 0x27] @
     ''. Add a token for higher limits.''"

definition client :: "environment \<Rightarrow> str option \<Rightarrow> github" where
  "client env token = (if truthy token then Github env token else Github env None)"

text \<open>
  \<open>st.sidebar.warning(..., icon=...)\<close> of lines 56 to 60. The \<open>icon\<close> literal in the source
  is the six code points U+201A, U+00F6, U+2020, U+00D4, U+220F, U+00E8, which is not an
  emoji; Streamlit checks the icon before it shows anything and raises. So the call shows
  nothing and raises an exception that is neither of the two GitHub exceptions.
\<close>

definition sidebar_warning_icon :: "environment \<Rightarrow> str \<Rightarrow> gh_exception + ui_event list" where
  "sidebar_warning_icon env body =
     Inl (Other_Exception (fst (icon_error env)) (snd (icon_error env)))"

text \<open>
  The events of lines 52 to 62 and the exception that leaves them, if any. With a token
  nothing is shown. Without one the warning is attempted first; the rate-limit caption
  of lines 61 and 62 comes after it.
\<close>

definition open_client :: "environment \<Rightarrow> str option \<Rightarrow> ui_event list \<times> gh_exception option" where
  "open_client env token =
     (if truthy token then ([], None)
      else (case sidebar_warning_icon env no_token_warning of
              Inl e \<Rightarrow> ([], Some e)
            | Inr shown \<Rightarrow>
                (case get_rate_limit (client env token) of
                   Inl e \<Rightarrow> (shown, Some e)
                 | Inr (remaining, limit) \<Rightarrow>
                     (shown @
                      [Sidebar_Caption (''GitHub API (Unauth): '' @ str_nat remaining @ ''/'' @
                                        str_nat limit @ '' requests remaining.'')], None))))"

definition max_repos_to_process :: nat where
  "max_repos_to_process = 50"

text \<open>Lines 77 to 85: the README text, empty when fetching or decoding raised.\<close>

definition readme_content :: "environment \<Rightarrow> repo \<Rightarrow> str" where
  "readme_content env r =
     (case get_readme r of
        Readme_Unknown_Object \<Rightarrow> []
      | Readme_Exception \<Rightarrow> []
      | Readme_Content content \<Rightarrow>
          (case b64decode env content of
             None \<Rightarrow> []
           | Some readme_bytes \<Rightarrow> decode_utf8_ignore env readme_bytes))"

text \<open>Lines 87 to 91.\<close>

definition make_repo_info :: "environment \<Rightarrow> repo \<Rightarrow> repo_info" where
  "make_repo_info env r =
     \<lparr> info_name = repo_name r,
       info_description =
         (if truthy (repo_description r) then the (repo_description r)
          else ''No description provided.''),
       info_readme = take 8000 (readme_content env r) \<rparr>"

text \<open>
  The loop of lines 71 to 93. The result is the exception that left the loop, or
  \<open>repo_data\<close>, \<open>processed_count\<close> and the events of the loop.
\<close>

fun fetch_loop ::
  "environment \<Rightarrow> paginated \<Rightarrow> repo_info list \<Rightarrow> nat \<Rightarrow>
     gh_exception + repo_info list \<times> nat \<times> ui_event list" where
  "fetch_loop env Page_End repo_data processed_count = Inr (repo_data, processed_count, [])"
| "fetch_loop env (Page_Raise e) repo_data processed_count = Inl e"
| "fetch_loop env (Page_Item r repos) repo_data processed_count =
     (if \<not> repo_fork r then
        if processed_count \<ge> max_repos_to_process
        then Inr (repo_data, processed_count,
                  [Sidebar_Info (''Stopped fetching after processing '' @
                     str_nat max_repos_to_process @
                     '' non-forked repos to manage API usage.'')])
        else fetch_loop env repos (repo_data @ [make_repo_info env r]) (processed_count + 1)
      else fetch_loop env repos repo_data processed_count)"

text \<open>The three \<open>except\<close> clauses of lines 99 to 109: each reports and returns \<open>[]\<close>.\<close>

definition handle_exception :: "str option \<Rightarrow> str \<Rightarrow> gh_exception \<Rightarrow> ui_event list" where
  "handle_exception token username e =
     (case e of
        RateLimitExceededException \<Rightarrow>
          St_Error ''GitHub API Rate Limit Exceeded. Please wait a while before trying again.'' #
          (if \<not> truthy token
           then [St_Error ''Consider adding a GitHub Personal Access Token to significantly increase the rate limit.'']
           else [])
      | UnknownObjectException \<Rightarrow>
          [St_Error (''GitHub user '' @ quote username @ '' not found. Please check the username.'')]
      | Other_Exception type_name message \<Rightarrow>
          [St_Error (''An unexpected error occurred while fetching GitHub repositories: '' @
                     type_name @ '' - '' @ message)])"

record fetch_result =
  returned :: "repo_info list"
  events :: "ui_event list"

definition fetch_github_repos :: "environment \<Rightarrow> str \<Rightarrow> str option \<Rightarrow> fetch_result" where
  "fetch_github_repos env username github_token_from_input =
     (let token = github_token env github_token_from_input;
          g = client env token;
          (evs, raised) = open_client env token
      in case raised of
           Some e \<Rightarrow> \<lparr> returned = [], events = evs @ handle_exception token username e \<rparr>
         | None \<Rightarrow>
             (case get_user g username of
                Inl e \<Rightarrow> \<lparr> returned = [], events = evs @ handle_exception token username e \<rparr>
              | Inr user \<Rightarrow>
                  (case fetch_loop env (get_repos user ''updated'' ''desc'') [] 0 of
                     Inl e \<Rightarrow>
                       \<lparr> returned = [], events = evs @ handle_exception token username e \<rparr>
                   | Inr (repo_data, processed_count, loop_evs) \<Rightarrow>
                       \<lparr> returned = repo_data,
                         events = evs @ loop_evs @
                           (if repo_data = [] \<and> processed_count = 0
                            then [Sidebar_Warning
                                    (''No non-forked public repositories found for user '' @
                                     quote username @ ''.'')]
                            else []) \<rparr>)))"

section \<open>The generative client\<close>

text \<open>
  The prompt is an f-string over the five arguments; the model keeps the arguments
  instead of the rendered text, which no statement below depends on. The service
  (\<open>genai.configure\<close>, \<open>GenerativeModel\<close>, \<open>generate_content\<close>, \<open>response.text\<close>) answers
  a key and a prompt with a text or raises; an exception carries \<open>type(e).__name__\<close>
  and \<open>str(e)\<close>.
\<close>

datatype prompt =
    Analysis_Prompt "repo_info list" str str str str
  | Answer_Prompt "repo_info list" str str str str str

type_synonym gemini = "str \<Rightarrow> prompt \<Rightarrow> (str \<times> str) + str"

record gemini_result =
  response :: str
  shown :: "ui_event list"
  requests :: "(str \<times> prompt) list"

text \<open>
  \<open>analyze_with_gemini\<close> and \<open>answer_with_gemini\<close> have the same body but for the prompt;
  \<open>generate\<close> is that body and \<open>gemini_failure\<close> its \<open>except\<close> clause. The result holds the
  text returned, the messages shown and the requests sent to the service.
\<close>

definition gemini_failure :: "str \<Rightarrow> str \<Rightarrow> ui_event list" where
  "gemini_failure type_name message =
     St_Error (''Error analyzing with Gemini: '' @ type_name @ '' - '' @ message) #
     (if contains message ''API key not valid''
      then [St_Error ''Invalid Gemini API Key. Please check the key in the sidebar.'']
      else if contains (lower message) ''quota''
      then [St_Error ''Quota exceeded for Gemini API. Check your usage limits or try again later.'']
      else if contains (lower message) ''blocked''
      then [St_Error ''Content was blocked by the Gemini API safety filters. Please review inputs.'']
      else [])"

definition generate :: "(str \<rightharpoonup> str) \<Rightarrow> gemini \<Rightarrow> prompt \<Rightarrow> gemini_result" where
  "generate session_state service p =
     (let api_key = session_state ''gemini_api_key''
      in if \<not> truthy api_key
         then \<lparr> response = ''Error: Gemini API key is missing.'',
                shown = [St_Error ''Gemini API key is missing. Please add it in the sidebar.''],
                requests = [] \<rparr>
         else (case service (the api_key) p of
                 Inr t \<Rightarrow> \<lparr> response = t, shown = [], requests = [(the api_key, p)] \<rparr>
               | Inl (type_name, message) \<Rightarrow>
                   \<lparr> response = ''An error occurred during Gemini analysis: '' @ message,
                     shown = gemini_failure type_name message,
                     requests = [(the api_key, p)] \<rparr>))"

definition analyze_with_gemini ::
  "(str \<rightharpoonup> str) \<Rightarrow> gemini \<Rightarrow> repo_info list \<Rightarrow> str \<Rightarrow> str \<Rightarrow> str \<Rightarrow> str \<Rightarrow> gemini_result" where
  "analyze_with_gemini session_state service github_data resume_text job_description role company =
     generate session_state service
       (Analysis_Prompt github_data resume_text job_description role company)"

definition answer_with_gemini ::
  "(str \<rightharpoonup> str) \<Rightarrow> gemini \<Rightarrow> repo_info list \<Rightarrow> str \<Rightarrow> str \<Rightarrow> str \<Rightarrow> str \<Rightarrow> str \<Rightarrow>
     gemini_result" where
  "answer_with_gemini session_state service github_data resume_text question job_role
       company_name job_description =
     generate session_state service
       (Answer_Prompt github_data resume_text question job_role company_name job_description)"

section \<open>Notions used in the statements about fetching\<close>

text \<open>The repositories a listing yields before it ends or raises, and whether it ends.\<close>

fun listed :: "paginated \<Rightarrow> repo list" where
  "listed Page_End = []"
| "listed (Page_Raise e) = []"
| "listed (Page_Item r p) = r # listed p"

fun completes :: "paginated \<Rightarrow> bool" where
  "completes Page_End = True"
| "completes (Page_Raise e) = False"
| "completes (Page_Item r p) = completes p"

text \<open>What the secret store holds under \<open>GITHUB_TOKEN\<close>, if it can be read.\<close>

definition stored_secret :: "environment \<Rightarrow> str option" where
  "stored_secret env = (case secrets env of None \<Rightarrow> None | Some m \<Rightarrow> m ''GITHUB_TOKEN'')"

text \<open>
  A README fails when \<open>get_readme\<close> raises or \<open>b64decode\<close> raises on its content.
\<close>

definition readme_fails :: "environment \<Rightarrow> repo \<Rightarrow> bool" where
  "readme_fails env r =
     (case get_readme r of
        Readme_Unknown_Object \<Rightarrow> True
      | Readme_Exception \<Rightarrow> True
      | Readme_Content content \<Rightarrow> b64decode env content = None)"

text \<open>
  The same service with other answers to \<open>get_readme\<close>: \<open>f r\<close> replaces the outcome of
  repository \<open>r\<close>, everything else is untouched.
\<close>

fun set_readmes :: "(repo \<Rightarrow> readme_outcome) \<Rightarrow> paginated \<Rightarrow> paginated" where
  "set_readmes f Page_End = Page_End"
| "set_readmes f (Page_Raise e) = Page_Raise e"
| "set_readmes f (Page_Item r p) = Page_Item (r\<lparr>get_readme := f r\<rparr>) (set_readmes f p)"

definition with_readmes :: "(repo \<Rightarrow> readme_outcome) \<Rightarrow> environment \<Rightarrow> environment" where
  "with_readmes f env =
     env\<lparr>Github := \<lambda>t.
       (Github env t)\<lparr>get_user := \<lambda>u.
          (case get_user (Github env t) u of
             Inl e \<Rightarrow> Inl e
           | Inr user \<Rightarrow>
               Inr (user\<lparr>get_repos := \<lambda>sort direction.
                      set_readmes f (get_repos user sort direction)\<rparr>))\<rparr>\<rparr>"

text \<open>The entries of a result with the README excerpts left out.\<close>

definition without_readmes :: "repo_info list \<Rightarrow> (str \<times> str) list" where
  "without_readmes d = map (\<lambda>i. (info_name i, info_description i)) d"

text \<open>
  Concrete surroundings for the examples: a service on which only the user \<open>octo\<close>
  exists, with the given listing, and a decoder that rejects the content \<open>!\<close>.
\<close>

definition example_env ::
  "(str \<rightharpoonup> str) option \<Rightarrow> (str \<rightharpoonup> str) \<Rightarrow> paginated \<Rightarrow> environment" where
  "example_env sec vars listing =
     \<lparr> secrets = sec,
       environ = vars,
       Github = (\<lambda>t.
         \<lparr> get_rate_limit = Inr (60, 60),
           get_user = (\<lambda>u. if u = ''octo''
                            then Inr \<lparr> get_repos = (\<lambda>sort direction. listing) \<rparr>
                            else Inl UnknownObjectException) \<rparr>),
       b64decode = (\<lambda>s. if s = ''!'' then None else Some s),
       decode_utf8_ignore = (\<lambda>b. b),
       icon_error = (''StreamlitAPIException'', ''not a valid emoji'') \<rparr>"

definition example_repo :: "str \<Rightarrow> bool \<Rightarrow> readme_outcome \<Rightarrow> repo" where
  "example_repo n f r =
     \<lparr> repo_name = n, repo_description = None, repo_fork = f, get_readme = r \<rparr>"

definition example_listing :: paginated where
  "example_listing =
     Page_Item (example_repo ''a'' False (Readme_Content ''alpha''))
    (Page_Item (example_repo ''b'' True (Readme_Content ''beta''))
    (Page_Item (example_repo ''c'' False Readme_Unknown_Object)
    (Page_Item (example_repo ''d'' True Readme_Exception)
    (Page_Item (example_repo ''e'' False (Readme_Content ''!''))
     Page_End))))"

definition forks_only :: paginated where
  "forks_only = Page_Item (example_repo ''b'' True (Readme_Content ''beta'')) Page_End"

section \<open>Properties of section extraction\<close>

subsection \<open>Characters\<close>

lemma all_chars: "(\<forall>c::char. P c) \<longleftrightarrow> list_all P Enum.enum"
  by (simp add: list_all_iff enum_UNIV)

lemma lower_char_fold_all: "list_all (\<lambda>c. lower_char c = fold_case c) Enum.enum"
  by code_simp

lemma lower_char_fold: "lower_char c = fold_case c"
  using lower_char_fold_all all_chars[of "\<lambda>c. lower_char c = fold_case c"] by blast

lemma same_ignoring_case_lower: "same_ignoring_case a b \<longleftrightarrow> lower a = lower b"
proof -
  have "lower_char = fold_case" by (rule ext) (rule lower_char_fold)
  then show ?thesis by (simp add: same_ignoring_case_def lower_def)
qed

lemma letters_not_space_digit:
  "list_all (\<lambda>c. \<not> is_space c \<and> \<not> is_digit c) (upper_letters @ lower_letters)"
  by code_simp

lemma fold_case_class:
  "is_space (fold_case c) = is_space c \<and> is_digit (fold_case c) = is_digit c"
proof (cases "map_of (zip upper_letters lower_letters) c")
  case None
  then show ?thesis by (simp add: fold_case_def)
next
  case (Some l)
  then have "(c, l) \<in> set (zip upper_letters lower_letters)" by (rule map_of_SomeD)
  then have "c \<in> set (upper_letters @ lower_letters)" "l \<in> set (upper_letters @ lower_letters)"
    by (auto dest: set_zip_leftD set_zip_rightD)
  with letters_not_space_digit
  have "\<not> is_space c \<and> \<not> is_digit c" "\<not> is_space l \<and> \<not> is_digit l"
    unfolding list_all_iff by blast+
  with Some show ?thesis by (simp add: fold_case_def)
qed

lemma same_ignoring_case_hd:
  assumes "same_ignoring_case n title" and "title \<noteq> []"
  shows "n \<noteq> [] \<and> is_space (hd n) = is_space (hd title) \<and> is_digit (hd n) = is_digit (hd title)"
proof -
  from assms obtain t ts where t: "title = t # ts" by (cases title) auto
  with assms(1) obtain x xs where x: "n = x # xs"
    by (cases n) (auto simp: same_ignoring_case_def)
  from assms(1) t x have "fold_case x = fold_case t" by (simp add: same_ignoring_case_def)
  with fold_case_class[of x] fold_case_class[of t]
  have "is_space x = is_space t \<and> is_digit x = is_digit t" by simp
  with t x show ?thesis by simp
qed

subsection \<open>The pieces of the pattern\<close>

lemma match_stars_Some: "match_stars s = Some r \<longleftrightarrow> s = ''**'' @ r"
  by (cases s rule: match_stars.cases) auto

lemma match_name_Some:
  "match_name name s = Some r \<Longrightarrow> \<exists>n. s = n @ r \<and> lower n = lower name"
proof (induction name s rule: match_name.induct)
  case (1 s)
  then show ?case by (simp add: lower_def)
next
  case (2 p ps)
  then show ?case by simp
next
  case (3 p ps c cs)
  from "3.prems" have ce: "ci_eq p c" and m: "match_name ps cs = Some r"
    by (auto split: if_splits)
  from "3.IH"[OF ce m] obtain n where "cs = n @ r" "lower n = lower ps" by blast
  with ce have "c # cs = (c # n) @ r \<and> lower (c # n) = lower (p # ps)"
    by (simp add: lower_def ci_eq_def)
  then show ?case by blast
qed

lemma match_name_complete:
  "lower n = lower name \<Longrightarrow> match_name name (n @ r) = Some r"
proof (induction name arbitrary: n)
  case Nil
  then show ?case by (simp add: lower_def)
next
  case (Cons p ps)
  then obtain c cs where n: "n = c # cs" by (cases n) (auto simp: lower_def)
  with Cons.prems have "ci_eq p c" "lower cs = lower ps" by (auto simp: lower_def ci_eq_def)
  with Cons.IH n show ?case by simp
qed

lemma not_digit_dot: "\<not> is_digit CHR ''.''"
  by (simp add: is_digit_def)

lemma not_space_star: "\<not> is_space CHR ''*''"
  by (simp add: is_space_def)

lemma numbering_ends_mem:
  "c \<in> set (numbering_ends s) \<longleftrightarrow>
     c = s \<or>
     (takeWhile is_digit s \<noteq> [] \<and>
      (\<exists>r k. dropWhile is_digit s = CHR ''.'' # r \<and> 1 \<le> k \<and>
             k \<le> length (takeWhile is_space r) \<and> c = drop k r))"
proof (cases "dropWhile is_digit s")
  case Nil
  show ?thesis unfolding numbering_ends_def Let_def Nil by auto
next
  case (Cons d r)
  have "set (rev [1 ..< Suc n]) = {k. 1 \<le> k \<and> k \<le> n}" for n :: nat
    by auto
  then show ?thesis unfolding numbering_ends_def Let_def Cons
    by (cases "d = CHR ''.''") auto
qed

lemma take_takeWhile_spaces:
  "k \<le> length (takeWhile P r) \<Longrightarrow> list_all P (take k r)"
proof (induction r arbitrary: k)
  case Nil
  then show ?case by simp
next
  case (Cons a r)
  then show ?case by (cases k) (auto split: if_splits)
qed

lemma numbering_ends_sound:
  assumes "c \<in> set (numbering_ends s)"
  shows "\<exists>num. s = num @ c \<and> (num = [] \<or> is_numbering num)"
proof (cases "c = s")
  case True
  then show ?thesis by simp
next
  case False
  define ds where "ds = takeWhile is_digit s"
  from assms False obtain r k where
    ds: "ds \<noteq> []" and dw: "dropWhile is_digit s = CHR ''.'' # r"
    and k: "1 \<le> k" "k \<le> length (takeWhile is_space r)" and c: "c = drop k r"
    unfolding numbering_ends_mem ds_def by blast
  have s: "s = ds @ CHR ''.'' # r"
    using dw takeWhile_dropWhile_id[of is_digit s] by (simp add: ds_def)
  let ?num = "ds @ CHR ''.'' # take k r"
  have alld: "\<forall>x\<in>set ds. is_digit x" unfolding ds_def by (meson set_takeWhileD)
  have tw: "takeWhile is_digit ?num = ds"
    using alld not_digit_dot by (simp add: takeWhile_tail)
  have dwn: "dropWhile is_digit ?num = CHR ''.'' # take k r"
    using alld not_digit_dot by (simp add: dropWhile_append)
  have sp: "list_all is_space (take k r)"
    using k(2) by (rule take_takeWhile_spaces)
  have ne: "take k r \<noteq> []" using k by (cases r) auto
  have "is_numbering ?num"
    unfolding is_numbering_def tw dwn using ds sp ne by simp
  moreover have "s = ?num @ c" using s c by simp
  ultimately show ?thesis by blast
qed

lemma first_match_Some:
  "first_match f xs = Some r \<Longrightarrow> \<exists>x\<in>set xs. f x = Some r"
  by (induction xs) (auto split: option.splits)

lemma match_heading_Some:
  assumes "match_heading name s = Some r"
  shows "headed name s r"
proof -
  from assms obtain r0 where r0: "match_stars (dropWhile is_space s) = Some r0"
    and fm: "first_match (match_name_stars name) (numbering_ends r0) = Some r"
    by (auto simp: match_heading_def split: option.splits)
  from first_match_Some[OF fm] obtain c where c: "c \<in> set (numbering_ends r0)"
    and mns: "match_name_stars name c = Some r" by blast
  from numbering_ends_sound[OF c] obtain num where num: "r0 = num @ c"
    "num = [] \<or> is_numbering num" by blast
  from mns obtain r1 where r1: "match_name name c = Some r1" "match_stars r1 = Some r"
    by (auto simp: match_name_stars_def split: option.splits)
  from match_name_Some[OF r1(1)] obtain n where n: "c = n @ r1" "lower n = lower name"
    by blast
  from r1(2) have r1': "r1 = ''**'' @ r" by (simp only: match_stars_Some)
  from r0 have dw: "dropWhile is_space s = ''**'' @ r0" by (simp only: match_stars_Some)
  have "s = takeWhile is_space s @ dropWhile is_space s" by simp
  then have eq: "s = takeWhile is_space s @ ''**'' @ num @ n @ ''**'' @ r"
    unfolding dw num(1) n(1) r1' .
  have sp: "list_all is_space (takeWhile is_space s)"
    unfolding list_all_iff by (meson set_takeWhileD)
  from n(2) have sic: "same_ignoring_case n name" by (simp add: same_ignoring_case_lower)
  show ?thesis unfolding headed_def
    using eq sp num(2) sic
    by (intro exI[of _ "takeWhile is_space s"] exI[of _ num] exI[of _ n] conjI)
qed

lemma dropWhile_all: "list_all P ws \<Longrightarrow> dropWhile P (ws @ ys) = dropWhile P ys"
  by (induction ws) auto

lemma takeWhile_all: "list_all P ws \<Longrightarrow> takeWhile P (ws @ ys) = ws @ takeWhile P ys"
  by (induction ws) auto

lemma is_numberingD:
  assumes "is_numbering num"
  obtains ds sp where "num = ds @ CHR ''.'' # sp" "ds \<noteq> []" "list_all is_digit ds"
    "sp \<noteq> []" "list_all is_space sp"
proof -
  from assms obtain sp where dw: "dropWhile is_digit num = CHR ''.'' # sp"
    and sp: "sp \<noteq> []" "list_all is_space sp" and ds: "takeWhile is_digit num \<noteq> []"
    by (auto simp: is_numbering_def split: list.splits)
  have "num = takeWhile is_digit num @ CHR ''.'' # sp"
    using takeWhile_dropWhile_id[of is_digit num] dw by simp
  moreover have "list_all is_digit (takeWhile is_digit num)"
    unfolding list_all_iff by (meson set_takeWhileD)
  ultimately show thesis using that ds sp by blast
qed

lemma numbering_ends_complete:
  assumes "num = [] \<or> is_numbering num"
  shows "c \<in> set (numbering_ends (num @ c))"
proof (cases "num = []")
  case True
  then show ?thesis by (simp add: numbering_ends_mem)
next
  case False
  with assms have "is_numbering num" by simp
  then obtain ds sp where num: "num = ds @ CHR ''.'' # sp" and ds: "ds \<noteq> []" "list_all is_digit ds"
    and sp: "sp \<noteq> []" "list_all is_space sp" by (rule is_numberingD)
  have tw: "takeWhile is_digit (num @ c) = ds"
    unfolding num using ds(2) not_digit_dot by (simp add: takeWhile_all)
  have dw: "dropWhile is_digit (num @ c) = CHR ''.'' # (sp @ c)"
    unfolding num using ds(2) not_digit_dot by (simp add: dropWhile_all)
  have len: "length sp \<le> length (takeWhile is_space (sp @ c))"
    using sp(2) by (simp add: takeWhile_all)
  have "1 \<le> length sp" using sp(1) by (cases sp) auto
  moreover have "c = drop (length sp) (sp @ c)" by simp
  ultimately show ?thesis
    unfolding numbering_ends_mem tw using ds(1) dw len by blast
qed

lemma first_match_complete:
  "x \<in> set xs \<Longrightarrow> f x \<noteq> None \<Longrightarrow> first_match f xs \<noteq> None"
  by (induction xs) (auto split: option.splits)

lemma match_heading_complete:
  assumes "headed name s r"
  shows "match_heading name s \<noteq> None"
proof -
  from assms obtain ws num n where s: "s = ws @ ''**'' @ num @ n @ ''**'' @ r"
    and ws: "list_all is_space ws" and num: "num = [] \<or> is_numbering num"
    and n: "lower n = lower name"
    unfolding headed_def same_ignoring_case_lower by blast
  let ?c = "n @ ''**'' @ r"
  have dw: "dropWhile is_space s = ''**'' @ num @ ?c"
    unfolding s using ws not_space_star by (simp add: dropWhile_all)
  have ms: "match_stars (dropWhile is_space s) = Some (num @ ?c)"
    unfolding dw by simp
  have c: "?c \<in> set (numbering_ends (num @ ?c))"
    using num by (rule numbering_ends_complete)
  have "match_name name ?c = Some (''**'' @ r)"
    using n by (rule match_name_complete)
  then have "match_name_stars name ?c \<noteq> None"
    by (simp add: match_name_stars_def)
  with c have "first_match (match_name_stars name) (numbering_ends (num @ ?c)) \<noteq> None"
    by (rule first_match_complete)
  then show ?thesis unfolding match_heading_def ms by simp
qed

subsection \<open>The body\<close>

lemma lazy_body_split:
  "\<exists>post. r = lazy_body r @ post \<and> lookahead post \<and>
          (\<forall>k < length (lazy_body r). \<not> lookahead (drop k (lazy_body r) @ post))"
proof (induction r)
  case Nil
  then show ?case by (simp add: lookahead_def)
next
  case (Cons c cs)
  show ?case
  proof (cases "lookahead (c # cs)")
    case True
    then show ?thesis by simp
  next
    case False
    from Cons.IH obtain post where post: "cs = lazy_body cs @ post" "lookahead post"
      and mn: "\<forall>k < length (lazy_body cs). \<not> lookahead (drop k (lazy_body cs) @ post)"
      by blast
    have "\<not> lookahead (drop k (c # lazy_body cs) @ post)" if "k < Suc (length (lazy_body cs))" for k
    proof (cases k)
      case 0
      then show ?thesis using False post(1) by simp
    next
      case (Suc j)
      then show ?thesis using mn that by simp
    qed
    with False post show ?thesis by (intro exI[of _ post]) simp
  qed
qed


subsection \<open>The heading\<close>

lemma rev_upt_Suc: "1 \<le> n \<Longrightarrow> rev [1 ..< Suc n] = n # rev [1 ..< n]"
  by simp

lemma numbering_ends_hd:
  assumes "c \<noteq> []" and "\<not> is_space (hd c)" and "\<not> is_digit (hd c)"
    and "num = [] \<or> is_numbering num"
  shows "\<exists>xs. numbering_ends (num @ c) = c # xs"
proof (cases "num = []")
  case True
  from assms(1,3) have "takeWhile is_digit c = []" by (cases c) auto
  with True show ?thesis by (simp add: numbering_ends_def)
next
  case False
  with assms(4) have "is_numbering num" by simp
  then obtain ds sp where num: "num = ds @ CHR ''.'' # sp" and ds: "ds \<noteq> []" "list_all is_digit ds"
    and sp: "sp \<noteq> []" "list_all is_space sp" by (rule is_numberingD)
  have tw: "takeWhile is_digit (num @ c) = ds"
    unfolding num using ds(2) not_digit_dot by (simp add: takeWhile_all)
  have dw: "dropWhile is_digit (num @ c) = CHR ''.'' # (sp @ c)"
    unfolding num using ds(2) not_digit_dot by (simp add: dropWhile_all)
  from assms(1,2) have "takeWhile is_space c = []" by (cases c) auto
  with sp(2) have len: "length (takeWhile is_space (sp @ c)) = length sp"
    by (simp add: takeWhile_all)
  from sp(1) have one: "1 \<le> length sp" by (cases sp) auto
  have "numbering_ends (num @ c) =
          map (\<lambda>k. drop k (sp @ c)) (rev [1 ..< Suc (length (takeWhile is_space (sp @ c)))]) @
          [num @ c]"
    unfolding numbering_ends_def Let_def tw dw using ds(1) by simp
  also have "\<dots> = map (\<lambda>k. drop k (sp @ c)) (rev [1 ..< Suc (length sp)]) @ [num @ c]"
    by (simp only: len)
  also have "\<dots> = map (\<lambda>k. drop k (sp @ c)) (length sp # rev [1 ..< length sp]) @ [num @ c]"
    by (simp only: rev_upt_Suc[OF one])
  also have "\<dots> = c # map (\<lambda>k. drop k (sp @ c)) (rev [1 ..< length sp]) @ [num @ c]"
    by simp
  finally show ?thesis by blast
qed

lemma match_heading_headed:
  assumes "plain_title title" and "headed title s r"
  shows "match_heading title s = Some r"
proof -
  from assms(2) obtain ws num n where s: "s = ws @ ''**'' @ num @ n @ ''**'' @ r"
    and ws: "list_all is_space ws" and num: "num = [] \<or> is_numbering num"
    and n: "same_ignoring_case n title"
    unfolding headed_def by blast
  let ?c = "n @ ''**'' @ r"
  from assms(1) have t: "title \<noteq> []" "\<not> is_space (hd title)" "\<not> is_digit (hd title)"
    by (simp_all add: plain_title_def)
  from same_ignoring_case_hd[OF n t(1)] t
  have n': "n \<noteq> []" "\<not> is_space (hd n)" "\<not> is_digit (hd n)" by simp_all
  then have c: "?c \<noteq> []" "\<not> is_space (hd ?c)" "\<not> is_digit (hd ?c)" by simp_all
  from numbering_ends_hd[OF c num] obtain xs where ne: "numbering_ends (num @ ?c) = ?c # xs"
    by blast
  have dw: "dropWhile is_space s = ''**'' @ num @ ?c"
    unfolding s using ws not_space_star by (simp add: dropWhile_all)
  have ms: "match_stars (dropWhile is_space s) = Some (num @ ?c)"
    unfolding dw by simp
  from n have "lower n = lower title" by (simp add: same_ignoring_case_lower)
  then have "match_name title ?c = Some (''**'' @ r)" by (rule match_name_complete)
  then have "match_name_stars title ?c = Some r" by (simp add: match_name_stars_def)
  then have fm: "first_match (match_name_stars title) (numbering_ends (num @ ?c)) = Some r"
    unfolding ne by simp
  show ?thesis by (simp only: match_heading_def ms option.case fm)
qed

lemma match_heading_None: "match_heading title s = None \<longleftrightarrow> (\<forall>r. \<not> headed title s r)"
proof
  assume "match_heading title s = None"
  then show "\<forall>r. \<not> headed title s r" using match_heading_complete by blast
next
  assume a: "\<forall>r. \<not> headed title s r"
  show "match_heading title s = None"
  proof (cases "match_heading title s")
    case None
    then show ?thesis .
  next
    case (Some r)
    then have "headed title s r" by (rule match_heading_Some)
    with a show ?thesis by blast
  qed
qed

subsection \<open>The search\<close>

lemma match_heading_Nil: "match_heading name [] = None"
  by (simp add: match_heading_def)

lemma match_at_cases:
  "match_at b name s = Some r \<longleftrightarrow>
     (b \<and> match_heading name s = Some r) \<or>
     ((b \<longrightarrow> match_heading name s = None) \<and>
      (\<exists>cs. s = newline # cs \<and> match_heading name cs = Some r))"
  by (cases s; cases b; cases "match_heading name s") (auto simp: match_at_def)

lemma match_at_None:
  "match_at b name s = None \<longleftrightarrow>
     (b \<longrightarrow> match_heading name s = None) \<and>
     (\<forall>cs. s = newline # cs \<longrightarrow> match_heading name cs = None)"
  by (cases s; cases b; cases "match_heading name s") (auto simp: match_at_def)

lemma search_heading_first:
  "search_heading b name doc = Some r \<Longrightarrow>
     \<exists>pre s. doc = pre @ s \<and> ((b \<and> pre = []) \<or> (pre \<noteq> [] \<and> last pre = newline)) \<and>
       match_heading name s = Some r \<and>
       (\<forall>p1 p2. pre = p1 @ p2 \<and> p2 \<noteq> [] \<and>
                ((b \<and> p1 = []) \<or> (p1 \<noteq> [] \<and> last p1 = newline)) \<longrightarrow>
          match_heading name (p2 @ s) = None)"
proof (induction doc arbitrary: b)
  case Nil
  then have "match_at b name [] = Some r" by simp
  then show ?case by (simp add: match_at_cases match_heading_Nil)
next
  case (Cons c cs)
  show ?case
  proof (cases "match_at b name (c # cs)")
    case (Some r')
    with Cons.prems have m: "match_at b name (c # cs) = Some r" by simp
    then consider (direct) "b" "match_heading name (c # cs) = Some r"
      | (line) "b \<longrightarrow> match_heading name (c # cs) = None" "c = newline"
          "match_heading name cs = Some r"
      unfolding match_at_cases by auto
    then show ?thesis
    proof cases
      case direct
      then show ?thesis by (intro exI[of _ "[]"] exI[of _ "c # cs"]) simp
    next
      case line
      have "\<forall>p1 p2. [newline] = p1 @ p2 \<and> p2 \<noteq> [] \<and>
                ((b \<and> p1 = []) \<or> (p1 \<noteq> [] \<and> last p1 = newline)) \<longrightarrow>
          match_heading name (p2 @ cs) = None"
      proof (intro allI impI)
        fix p1 p2 :: str
        assume a: "[newline] = p1 @ p2 \<and> p2 \<noteq> [] \<and>
                ((b \<and> p1 = []) \<or> (p1 \<noteq> [] \<and> last p1 = newline))"
        then have "p1 = []" "p2 = [newline]" by (auto simp: Cons_eq_append_conv)
        with a line show "match_heading name (p2 @ cs) = None" by simp
      qed
      with line show ?thesis by (intro exI[of _ "[newline]"] exI[of _ cs]) simp
    qed
  next
    case None
    with Cons.prems have "search_heading False name cs = Some r" by simp
    from Cons.IH[OF this] obtain pre s where cs: "cs = pre @ s"
      and pre: "pre \<noteq> []" "last pre = newline" and m: "match_heading name s = Some r"
      and first: "\<forall>p1 p2. pre = p1 @ p2 \<and> p2 \<noteq> [] \<and> p1 \<noteq> [] \<and> last p1 = newline \<longrightarrow>
          match_heading name (p2 @ s) = None"
      by auto
    from None have n1: "b \<longrightarrow> match_heading name (c # cs) = None"
      and n2: "c = newline \<longrightarrow> match_heading name cs = None"
      unfolding match_at_None by auto
    have "\<forall>p1 p2. c # pre = p1 @ p2 \<and> p2 \<noteq> [] \<and>
                ((b \<and> p1 = []) \<or> (p1 \<noteq> [] \<and> last p1 = newline)) \<longrightarrow>
          match_heading name (p2 @ s) = None"
    proof (intro allI impI)
      fix p1 p2 :: str
      assume a: "c # pre = p1 @ p2 \<and> p2 \<noteq> [] \<and>
                ((b \<and> p1 = []) \<or> (p1 \<noteq> [] \<and> last p1 = newline))"
      show "match_heading name (p2 @ s) = None"
      proof (cases p1)
        case Nil
        with a have "b" "p2 = c # pre" by auto
        with n1 cs show ?thesis by simp
      next
        case (Cons x q)
        with a have x: "x = c" and q: "pre = q @ p2" and l: "last (x # q) = newline"
          and p2: "p2 \<noteq> []" by auto
        show ?thesis
        proof (cases "q = []")
          case True
          with l x q n2 cs show ?thesis by simp
        next
          case False
          with l have "last q = newline" by simp
          with first q p2 False show ?thesis by blast
        qed
      qed
    qed
    with cs pre m show ?thesis by (intro exI[of _ "c # pre"] exI[of _ s]) simp
  qed
qed

lemma search_heading_found:
  "(b \<and> pre = []) \<or> (pre \<noteq> [] \<and> last pre = newline) \<Longrightarrow>
   match_heading name s = Some r \<Longrightarrow>
   \<forall>p1 p2. pre = p1 @ p2 \<and> p2 \<noteq> [] \<and>
            ((b \<and> p1 = []) \<or> (p1 \<noteq> [] \<and> last p1 = newline)) \<longrightarrow>
      match_heading name (p2 @ s) = None \<Longrightarrow>
   search_heading b name (pre @ s) = Some r"
proof (induction pre arbitrary: b)
  case Nil
  then have "match_at b name s = Some r" by (simp add: match_at_cases)
  then show ?case by (cases s) simp_all
next
  case (Cons c p)
  note first = Cons.prems(3)
  have direct: "b \<longrightarrow> match_heading name (c # p @ s) = None"
  proof
    assume b
    then have "c # p = [] @ (c # p) \<and> c # p \<noteq> [] \<and>
        ((b \<and> [] = []) \<or> ([] \<noteq> [] \<and> last [] = newline))" by simp
    with first have "match_heading name ((c # p) @ s) = None" by blast
    then show "match_heading name (c # p @ s) = None" by simp
  qed
  show ?case
  proof (cases "p = []")
    case True
    with Cons.prems(1) have c: "c = newline" by simp
    with True direct Cons.prems(2) have "match_at b name (c # p @ s) = Some r"
      unfolding match_at_cases by simp
    then show ?thesis by simp
  next
    case False
    have line: "c = newline \<longrightarrow> match_heading name (p @ s) = None"
    proof
      assume "c = newline"
      with False have "c # p = [c] @ p \<and> p \<noteq> [] \<and>
          ((b \<and> [c] = []) \<or> ([c] \<noteq> [] \<and> last [c] = newline))" by simp
      with first show "match_heading name (p @ s) = None" by blast
    qed
    from direct line have none: "match_at b name (c # p @ s) = None"
      unfolding match_at_None by simp
    from False Cons.prems(1) have anch: "(False \<and> p = []) \<or> (p \<noteq> [] \<and> last p = newline)"
      by simp
    have "\<forall>p1 p2. p = p1 @ p2 \<and> p2 \<noteq> [] \<and>
            ((False \<and> p1 = []) \<or> (p1 \<noteq> [] \<and> last p1 = newline)) \<longrightarrow>
      match_heading name (p2 @ s) = None"
    proof (intro allI impI)
      fix p1 p2 :: str
      assume a: "p = p1 @ p2 \<and> p2 \<noteq> [] \<and>
            ((False \<and> p1 = []) \<or> (p1 \<noteq> [] \<and> last p1 = newline))"
      then have "c # p = (c # p1) @ p2 \<and> p2 \<noteq> [] \<and>
          ((b \<and> c # p1 = []) \<or> (c # p1 \<noteq> [] \<and> last (c # p1) = newline))" by simp
      with first show "match_heading name (p2 @ s) = None" by blast
    qed
    from Cons.IH[OF anch Cons.prems(2) this] none show ?thesis by simp
  qed
qed

lemma search_first_heading:
  assumes "search_heading True title text = Some r"
  shows "first_heading title text r"
proof -
  from search_heading_first[OF assms] obtain pre s where t: "text = pre @ s"
    and pre: "line_start pre" and m: "match_heading title s = Some r"
    and first: "\<forall>p1 p2. pre = p1 @ p2 \<and> p2 \<noteq> [] \<and> line_start p1 \<longrightarrow>
          match_heading title (p2 @ s) = None"
    unfolding line_start_def by auto
  from m have h: "headed title s r" by (rule match_heading_Some)
  from first have "\<forall>p1 p2. pre = p1 @ p2 \<and> p2 \<noteq> [] \<and> line_start p1 \<longrightarrow>
           (\<forall>r'. \<not> headed title (p2 @ s) r')"
    unfolding match_heading_None .
  with t pre h show ?thesis
    unfolding first_heading_def by (intro exI[of _ pre] exI[of _ s]) simp
qed

lemma first_heading_search:
  assumes "plain_title title" and "first_heading title text r"
  shows "search_heading True title text = Some r"
proof -
  from assms(2) obtain pre s where t: "text = pre @ s" and pre: "line_start pre"
    and h: "headed title s r"
    and first: "\<forall>p1 p2. pre = p1 @ p2 \<and> p2 \<noteq> [] \<and> line_start p1 \<longrightarrow>
           (\<forall>r'. \<not> headed title (p2 @ s) r')"
    unfolding first_heading_def by blast
  from assms(1) h have m: "match_heading title s = Some r" by (rule match_heading_headed)
  from pre have anch: "(True \<and> pre = []) \<or> (pre \<noteq> [] \<and> last pre = newline)"
    by (auto simp: line_start_def)
  from first have "\<forall>p1 p2. pre = p1 @ p2 \<and> p2 \<noteq> [] \<and>
            ((True \<and> p1 = []) \<or> (p1 \<noteq> [] \<and> last p1 = newline)) \<longrightarrow>
      match_heading title (p2 @ s) = None"
    unfolding match_heading_None line_start_def by auto
  from search_heading_found[OF anch m this] t show ?thesis by simp
qed

lemma stars_ahead_iff: "stars_ahead s \<longleftrightarrow> (\<exists>a b. s = a @ ''**'' @ b)"
proof (induction s)
  case Nil
  then show ?case by simp
next
  case (Cons c cs)
  show ?case
  proof
    assume "stars_ahead (c # cs)"
    then consider "match_stars (c # cs) \<noteq> None" | "stars_ahead cs" by auto
    then show "\<exists>a b. c # cs = a @ ''**'' @ b"
    proof cases
      case 1
      then obtain r where "c # cs = ''**'' @ r" unfolding match_stars_Some[symmetric] by blast
      then have "c # cs = [] @ ''**'' @ r" by simp
      then show ?thesis by blast
    next
      case 2
      with Cons.IH obtain a b where "cs = a @ ''**'' @ b" by blast
      then have "c # cs = (c # a) @ ''**'' @ b" by simp
      then show ?thesis by blast
    qed
  next
    assume "\<exists>a b. c # cs = a @ ''**'' @ b"
    then obtain a b where ab: "c # cs = a @ ''**'' @ b" by blast
    show "stars_ahead (c # cs)"
    proof (cases a)
      case Nil
      with ab have "match_stars (c # cs) = Some b" by (simp add: match_stars_Some)
      then show ?thesis by simp
    next
      case (Cons x xs)
      with ab have "cs = xs @ ''**'' @ b" by simp
      with Cons.IH have "stars_ahead cs" by blast
      then show ?thesis by simp
    qed
  qed
qed

lemma numbering_ends_last: "s \<in> set (numbering_ends s)"
  by (simp add: numbering_ends_mem)

lemma heading_ahead_iff: "heading_ahead s \<longleftrightarrow> bold_heading_at s"
proof
  assume h: "heading_ahead s"
  then obtain cs where s: "s = newline # cs"
    by (cases s) (auto simp: heading_ahead_def)
  with h obtain r where r: "match_stars (dropWhile is_space cs) = Some r"
    and ex: "list_ex stars_ahead (numbering_ends r)"
    by (auto simp: heading_ahead_def split: option.splits)
  from ex obtain c where c: "c \<in> set (numbering_ends r)" "stars_ahead c"
    unfolding list_ex_iff by blast
  from numbering_ends_sound[OF c(1)] obtain num where num: "r = num @ c" by blast
  from c(2) obtain a b where ab: "c = a @ ''**'' @ b" unfolding stars_ahead_iff by blast
  from r have dw: "dropWhile is_space cs = ''**'' @ r" by (simp only: match_stars_Some)
  have "cs = takeWhile is_space cs @ dropWhile is_space cs" by simp
  then have "cs = takeWhile is_space cs @ ''**'' @ (num @ a) @ ''**'' @ b"
    unfolding dw num ab by simp
  with s have eq: "s = newline # takeWhile is_space cs @ ''**'' @ (num @ a) @ ''**'' @ b"
    by simp
  have sp: "list_all is_space (takeWhile is_space cs)"
    unfolding list_all_iff by (meson set_takeWhileD)
  show "bold_heading_at s" unfolding bold_heading_at_def
    using eq sp by (intro exI[of _ "takeWhile is_space cs"] exI[of _ "num @ a"] exI[of _ b] conjI)
next
  assume "bold_heading_at s"
  then obtain ws inner rest where s: "s = newline # ws @ ''**'' @ inner @ ''**'' @ rest"
    and ws: "list_all is_space ws"
    unfolding bold_heading_at_def by blast
  let ?r = "inner @ ''**'' @ rest"
  have dw: "dropWhile is_space (ws @ ''**'' @ ?r) = ''**'' @ ?r"
    using ws not_space_star by (simp add: dropWhile_all)
  have ms: "match_stars (dropWhile is_space (ws @ ''**'' @ ?r)) = Some ?r"
    unfolding dw by simp
  have "stars_ahead ?r" unfolding stars_ahead_iff by blast
  with numbering_ends_last[of ?r] have "list_ex stars_ahead (numbering_ends ?r)"
    unfolding list_ex_iff by blast
  with ms show "heading_ahead s" unfolding s heading_ahead_def by simp
qed

lemma lazy_body_section: "section_body r (lazy_body r)"
proof -
  from lazy_body_split[of r] obtain post where post: "r = lazy_body r @ post" "lookahead post"
    and mn: "\<forall>k < length (lazy_body r). \<not> lookahead (drop k (lazy_body r) @ post)"
    by blast
  from post(2) have p: "post = [] \<or> bold_heading_at post"
    by (auto simp: lookahead_def heading_ahead_iff)
  from mn have m: "\<forall>k < length (lazy_body r). \<not> bold_heading_at (drop k (lazy_body r) @ post)"
    by (simp add: lookahead_def heading_ahead_iff)
  show ?thesis unfolding section_body_def
    using post(1) p m by (intro exI[of _ post] conjI)
qed

lemma lazy_body_append:
  "post = [] \<or> bold_heading_at post \<Longrightarrow>
   \<forall>k < length body. \<not> bold_heading_at (drop k body @ post) \<Longrightarrow>
   lazy_body (body @ post) = body"
proof (induction body)
  case Nil
  then show ?case by (cases post) (simp_all add: lookahead_def heading_ahead_iff)
next
  case (Cons b bs)
  from Cons.prems(2) have "\<not> bold_heading_at (drop 0 (b # bs) @ post)" by blast
  then have no: "\<not> lookahead (b # bs @ post)" by (simp add: lookahead_def heading_ahead_iff)
  have "\<forall>k < length bs. \<not> bold_heading_at (drop k bs @ post)"
  proof (intro allI impI)
    fix k assume "k < length bs"
    then have "Suc k < length (b # bs)" by simp
    with Cons.prems(2) have "\<not> bold_heading_at (drop (Suc k) (b # bs) @ post)" by blast
    then show "\<not> bold_heading_at (drop k bs @ post)" by simp
  qed
  with Cons.IH Cons.prems(1) have "lazy_body (bs @ post) = bs" by blast
  with no show ?case by simp
qed

lemma section_body_unique: "section_body r body \<Longrightarrow> lazy_body r = body"
  unfolding section_body_def using lazy_body_append by blast

subsection \<open>Stripping\<close>

lemma strip_stripped: "stripped body (strip body)"
proof -
  let ?t = "dropWhile is_space body"
  let ?a = "takeWhile is_space body"
  let ?b = "rev (takeWhile is_space (rev ?t))"
  have t: "?t = strip body @ ?b"
    unfolding strip_def by (metis rev_append rev_rev_ident takeWhile_dropWhile_id)
  have eq: "body = ?a @ strip body @ ?b"
    using t takeWhile_dropWhile_id[of is_space body] by simp
  have a: "list_all is_space ?a" unfolding list_all_iff by (meson set_takeWhileD)
  have b: "list_all is_space ?b" unfolding list_all_iff by (auto dest: set_takeWhileD)
  have ends: "strip body \<noteq> [] \<longrightarrow> \<not> is_space (hd (strip body)) \<and> \<not> is_space (last (strip body))"
  proof
    assume ne: "strip body \<noteq> []"
    with t have tne: "?t \<noteq> []" by (metis Nil_is_append_conv)
    then have "\<not> is_space (hd ?t)" by (rule hd_dropWhile)
    moreover from t ne have "hd ?t = hd (strip body)" by (metis hd_append2)
    ultimately have h: "\<not> is_space (hd (strip body))" by simp
    from ne have "dropWhile is_space (rev ?t) \<noteq> []" by (simp add: strip_def)
    then have "\<not> is_space (hd (dropWhile is_space (rev ?t)))" by (rule hd_dropWhile)
    moreover from ne have "last (strip body) = hd (dropWhile is_space (rev ?t))"
      unfolding strip_def by (simp add: last_rev)
    ultimately show "\<not> is_space (hd (strip body)) \<and> \<not> is_space (last (strip body))"
      using h by simp
  qed
  show ?thesis unfolding stripped_def
    using eq a b ends by (intro exI[of _ ?a] exI[of _ ?b] conjI)
qed

lemma dropWhile_hd: "xs \<noteq> [] \<Longrightarrow> \<not> P (hd xs) \<Longrightarrow> dropWhile P xs = xs"
  by (cases xs) auto

lemma stripped_unique:
  assumes "stripped body content"
  shows "strip body = content"
proof -
  from assms obtain a b where body: "body = a @ content @ b"
    and a: "list_all is_space a" and b: "list_all is_space b"
    and ends: "content \<noteq> [] \<longrightarrow> \<not> is_space (hd content) \<and> \<not> is_space (last content)"
    unfolding stripped_def by blast
  show ?thesis
  proof (cases "content = []")
    case True
    with body a b have "list_all is_space body" by simp
    then have d: "dropWhile is_space body = []" by (simp add: list_all_iff)
    have "strip body = []" unfolding strip_def d by simp
    with True show ?thesis by simp
  next
    case False
    with ends have h: "\<not> is_space (hd content)" and l: "\<not> is_space (last content)" by simp_all
    from False h have "dropWhile is_space (content @ b) = content @ b"
      by (intro dropWhile_hd) simp_all
    with a have dw: "dropWhile is_space body = content @ b"
      unfolding body by (simp add: dropWhile_all)
    from b have rb: "list_all is_space (rev b)" by (simp add: list_all_iff)
    from False l have "dropWhile is_space (rev content) = rev content"
      by (intro dropWhile_hd) (simp_all add: hd_rev)
    with rb have "dropWhile is_space (rev (content @ b)) = rev content"
      by (simp add: dropWhile_all)
    then show ?thesis unfolding strip_def dw by simp
  qed
qed

lemma startswith_take: "startswith s p \<longleftrightarrow> take (length p) s = p"
  by (induction s p rule: startswith.induct) auto

lemma startswith_stars: "startswith s ''**'' \<longleftrightarrow> take 2 s = ''**''"
  using startswith_take[of s "''**''"] by (simp add: numeral_2_eq_2)

subsection \<open>The four titles and the examples\<close>

lemma titles_plain: "\<forall>sec \<in> set sections_to_display. plain_title (fst sec)"
  by (simp add: sections_to_display_def plain_title_def is_space_def is_digit_def)

lemma example_skills:
  "extract_section example_response ''Skills to Highlight'' = Some ''Python''"
  by code_simp

lemma example_projects:
  "extract_section example_response ''Projects to Showcase'' = Some ''Proj A''"
  by code_simp

lemma example_other_case:
  "extract_section example_response ''skills TO highlight'' = Some ''Python''"
  by code_simp

lemma example_unclosed:
  "extract_section unclosed_response ''a'' = Some (''x'' @ [newline] @ ''**y'')"
  by code_simp

lemma extract_section_sound:
  assumes "extract_section text title = Some content"
  shows "section_of title text content \<and> content \<noteq> [] \<and> take 2 content \<noteq> ''**''"
proof -
  from assms obtain r where sh: "search_heading True title text = Some r"
    and content: "content = strip (lazy_body r)"
    and guard: "content \<noteq> []" "\<not> startswith content ''**''"
    by (auto simp: extract_section_def search_section_def Let_def
        split: option.splits if_splits)
  from sh have "first_heading title text r" by (rule search_first_heading)
  moreover have "section_body r (lazy_body r)" by (rule lazy_body_section)
  moreover have "stripped (lazy_body r) content" unfolding content by (rule strip_stripped)
  ultimately have "section_of title text content"
    unfolding section_of_def by (intro exI[of _ r] exI[of _ "lazy_body r"] conjI)
  moreover from guard(2) have "take 2 content \<noteq> ''**''"
    using startswith_stars[of content] by blast
  ultimately show ?thesis using guard(1) by simp
qed

lemma extract_section_complete:
  assumes "plain_title title" and "section_of title text content"
    and "content \<noteq> []" and "take 2 content \<noteq> ''**''"
  shows "extract_section text title = Some content"
proof -
  from assms(2) obtain r body where fh: "first_heading title text r"
    and sb: "section_body r body" and st: "stripped body content"
    unfolding section_of_def by blast
  from assms(1) fh have "search_heading True title text = Some r"
    by (rule first_heading_search)
  moreover from sb have "lazy_body r = body" by (rule section_body_unique)
  ultimately have "search_section text title = Some body"
    by (simp add: search_section_def)
  moreover from st have "strip body = content" by (rule stripped_unique)
  moreover from assms(4) have "\<not> startswith content ''**''"
    using startswith_stars[of content] by blast
  ultimately show ?thesis using assms(3) by (simp add: extract_section_def)
qed

text \<open>
  Claim C1. A content that \<open>extract_section\<close> returns is the section of the title as the
  specification describes it: the text has a bolded, optionally numbered heading for the
  title (letter case ignored) on the first line that has one, and the content is the text
  from just after that heading up to the next bolded heading, or the end of the text,
  without the whitespace at its ends. Conversely, for a title that begins with neither
  whitespace nor a digit, as all four requested titles do, \<open>extract_section\<close> returns the
  section of the title whenever the text has one that is not empty and does not begin
  with the bold marker. On the example response the two titles yield \<open>Python\<close> and
  \<open>Proj A\<close>, also when the title is written in another case; and a bold that is opened
  but never closed is not taken for the next heading.
\<close>

theorem extract_section_finds_heading:
  "(extract_section text title = Some content \<longrightarrow>
      section_of title text content \<and> content \<noteq> [] \<and> take 2 content \<noteq> ''**'') \<and>
   (plain_title title \<and> section_of title text content \<and> content \<noteq> [] \<and>
    take 2 content \<noteq> ''**'' \<longrightarrow>
      extract_section text title = Some content) \<and>
   (\<forall>sec \<in> set sections_to_display. plain_title (fst sec)) \<and>
   extract_section example_response ''Skills to Highlight'' = Some ''Python'' \<and>
   extract_section example_response ''Projects to Showcase'' = Some ''Proj A'' \<and>
   extract_section example_response ''skills TO highlight'' = Some ''Python'' \<and>
   extract_section unclosed_response ''a'' = Some (''x'' @ [newline] @ ''**y'')"
proof (intro conjI impI)
  assume "extract_section text title = Some content"
  then show "section_of title text content" and "content \<noteq> []" and "take 2 content \<noteq> ''**''"
    using extract_section_sound by blast+
next
  assume "plain_title title \<and> section_of title text content \<and> content \<noteq> [] \<and>
    take 2 content \<noteq> ''**''"
  then show "extract_section text title = Some content"
    using extract_section_complete by blast
next
  show "\<forall>sec \<in> set sections_to_display. plain_title (fst sec)" by (rule titles_plain)
next
  show "extract_section example_response ''Skills to Highlight'' = Some ''Python''"
    by (rule example_skills)
next
  show "extract_section example_response ''Projects to Showcase'' = Some ''Proj A''"
    by (rule example_projects)
next
  show "extract_section example_response ''skills TO highlight'' = Some ''Python''"
    by (rule example_other_case)
next
  show "extract_section unclosed_response ''a'' = Some (''x'' @ [newline] @ ''**y'')"
    by (rule example_unclosed)
qed

theorem extract_section_finds_heading_witness:
  "plain_title ''A'' \<and> section_of ''A'' ''**A**x'' ''x'' \<and> ''x'' \<noteq> [] \<and>
   take 2 ''x'' \<noteq> ''**'' \<and> extract_section ''**A**x'' ''A'' = Some ''x''"
proof -
  have plain: "plain_title ''A''"
    by (simp add: plain_title_def is_space_def is_digit_def)
  have "''**A**x'' = [] @ ''**'' @ [] @ ''A'' @ ''**'' @ ''x'' \<and> list_all is_space [] \<and>
        ([] = [] \<or> is_numbering []) \<and> same_ignoring_case ''A'' ''A''"
    by (simp add: same_ignoring_case_def)
  then have h: "headed ''A'' ''**A**x'' ''x''"
    unfolding headed_def by (intro exI)
  have "''**A**x'' = [] @ ''**A**x'' \<and> line_start [] \<and> headed ''A'' ''**A**x'' ''x'' \<and>
        (\<forall>p1 p2. [] = p1 @ p2 \<and> p2 \<noteq> [] \<and> line_start p1 \<longrightarrow>
           (\<forall>r'. \<not> headed ''A'' (p2 @ ''**A**x'') r'))"
    using h by (simp add: line_start_def)
  then have fh: "first_heading ''A'' ''**A**x'' ''x''"
    unfolding first_heading_def by (intro exI)
  have nb: "\<not> bold_heading_at ''x''"
    by (simp add: bold_heading_at_def newline_def)
  have "''x'' = ''x'' @ [] \<and> ([] = [] \<or> bold_heading_at []) \<and>
        (\<forall>k < length ''x''. \<not> bold_heading_at (drop k ''x'' @ []))"
    using nb by simp
  then have sb: "section_body ''x'' ''x''"
    unfolding section_body_def by (intro exI)
  have "''x'' = [] @ ''x'' @ [] \<and> list_all is_space [] \<and> list_all is_space [] \<and>
        (''x'' \<noteq> [] \<longrightarrow> \<not> is_space (hd ''x'') \<and> \<not> is_space (last ''x''))"
    by (simp add: is_space_def)
  then have st: "stripped ''x'' ''x''"
    unfolding stripped_def by (intro exI)
  from fh sb st have so: "section_of ''A'' ''**A**x'' ''x''"
    unfolding section_of_def by (intro exI conjI)
  have g: "''x'' \<noteq> [] \<and> take 2 ''x'' \<noteq> ''**''" by simp
  note t = extract_section_finds_heading[of "''**A**x''" "''A''" "''x''"]
  from t have "plain_title ''A'' \<and> section_of ''A'' ''**A**x'' ''x'' \<and> ''x'' \<noteq> [] \<and>
    take 2 ''x'' \<noteq> ''**'' \<longrightarrow> extract_section ''**A**x'' ''A'' = Some ''x''"
    by (elim conjE)
  with plain so g have "extract_section ''**A**x'' ''A'' = Some ''x''" by blast
  with plain so g show ?thesis by blast
qed

text \<open>
  Claim C5. When the search matches but the captured body is empty after stripping, or the
  stripped body starts with the bold marker, \<open>extract_section\<close> returns \<open>None\<close>; so a
  content it does return is neither empty nor begins with the bold marker.
\<close>

theorem extract_section_rejects:
  "(search_section text title = Some body \<and>
    (strip body = [] \<or> startswith (strip body) ''**'') \<longrightarrow>
      extract_section text title = None) \<and>
   (extract_section text title = Some c \<longrightarrow> c \<noteq> [] \<and> \<not> startswith c ''**'')"
proof (intro conjI impI)
  assume "search_section text title = Some body \<and>
    (strip body = [] \<or> startswith (strip body) ''**'')"
  then show "extract_section text title = None"
    by (simp add: extract_section_def Let_def)
next
  assume "extract_section text title = Some c"
  then obtain body where "search_section text title = Some body" "c = strip body"
    "\<not> (strip body = [] \<or> startswith (strip body) ''**'')"
    by (auto simp: extract_section_def Let_def split: option.splits if_splits)
  then show "c \<noteq> []" and "\<not> startswith c ''**''" by simp_all
qed

theorem extract_section_rejects_witness:
  "search_section (''**Skills**'' @ [newline, newline] @ ''**2. Projects**'') ''Skills'' = Some [] \<and>
   extract_section (''**Skills**'' @ [newline, newline] @ ''**2. Projects**'') ''Skills'' = None \<and>
   search_section ''**Skills****x'' ''Skills'' = Some ''**x'' \<and>
   startswith (strip ''**x'') ''**'' \<and>
   extract_section ''**Skills****x'' ''Skills'' = None"
proof -
  have a: "search_section (''**Skills**'' @ [newline, newline] @ ''**2. Projects**'') ''Skills'' = Some []"
    by code_simp
  have b: "search_section ''**Skills****x'' ''Skills'' = Some ''**x''"
    by code_simp
  have c: "startswith (strip ''**x'') ''**''" by code_simp
  have d: "strip [] = []" by (simp add: strip_def)
  note t1 = extract_section_rejects
    [of "''**Skills**'' @ [newline, newline] @ ''**2. Projects**''" "''Skills''" "[]"]
  note t2 = extract_section_rejects[of "''**Skills****x''" "''Skills''" "''**x''"]
  from t1 a d have e: "extract_section (''**Skills**'' @ [newline, newline] @ ''**2. Projects**'')
      ''Skills'' = None"
    by blast
  from t2 b c have f: "extract_section ''**Skills****x'' ''Skills'' = None"
    by blast
  from a b c e f show ?thesis by (intro conjI)
qed

section \<open>Properties of the display and of the generative client\<close>

lemma display_section_None:
  "extract_section analysis_text (fst sec) = None \<Longrightarrow> snd (display_section analysis_text sec) = 0"
  by (simp add: display_section_def Let_def)

lemma display_sections_none_found:
  "\<forall>sec\<in>set secs. extract_section analysis_text (fst sec) = None \<Longrightarrow>
   snd (display_sections analysis_text secs n) = n"
proof (induction secs arbitrary: n)
  case Nil
  then show ?case by simp
next
  case (Cons sec secs)
  then have "snd (display_section analysis_text sec) = 0"
    by (simp add: display_section_None)
  moreover from Cons have "snd (display_sections analysis_text secs n) = n" by simp
  ultimately show ?case by (simp add: split_def Let_def)
qed

text \<open>
  Claim C4, as amended. For a non-empty response in which none of the four sections is
  found: unless the text starts with \<open>Error:\<close> or contains the analysis-failure marker,
  the last thing \<open>display_results\<close> shows is the raw-response fallback holding the whole
  text; for a text that does, it shows the failure message, which holds the whole text,
  and returns before the fallback.
\<close>

theorem display_results_fallback:
  assumes "analysis_text \<noteq> []"
    and "\<forall>sec\<in>set sections_to_display. extract_section analysis_text (fst sec) = None"
  shows "if startswith analysis_text ''Error:'' \<or>
            contains analysis_text ''An error occurred during Gemini analysis:''
         then display_results analysis_text =
                [St_Subheader ''Analysis Results'',
                 St_Error (''Analysis failed: '' @ analysis_text)]
         else last (display_results analysis_text) = raw_fallback analysis_text"
proof -
  from assms(2) have "snd (display_sections analysis_text sections_to_display 0) = 0"
    by (rule display_sections_none_found)
  with assms(1) show ?thesis
    by (simp add: display_results_def split_def Let_def)
qed

theorem display_results_fallback_witness:
  "''hello'' \<noteq> [] \<and>
   extract_section ''hello'' ''Skills to Highlight'' = None \<and>
   extract_section ''hello'' ''Projects to Showcase'' = None \<and>
   extract_section ''hello'' ''Resume Objective'' = None \<and>
   extract_section ''hello'' ''Interview Preparation Tips'' = None \<and>
   last (display_results ''hello'') = raw_fallback ''hello''"
proof -
  have a: "\<forall>sec\<in>set sections_to_display. extract_section ''hello'' (fst sec) = None"
    by code_simp
  have b: "\<not> (startswith ''hello'' ''Error:'' \<or>
            contains ''hello'' ''An error occurred during Gemini analysis:'')"
    by code_simp
  from a have c: "extract_section ''hello'' ''Skills to Highlight'' = None \<and>
   extract_section ''hello'' ''Projects to Showcase'' = None \<and>
   extract_section ''hello'' ''Resume Objective'' = None \<and>
   extract_section ''hello'' ''Interview Preparation Tips'' = None"
    by (simp add: sections_to_display_def)
  from display_results_fallback[OF _ a] b c show ?thesis by simp
qed

text \<open>
  The claim as it is written fails at the non-empty text \<open>Error: x\<close>: no section is
  found, and neither raw-response expander is shown.
\<close>

theorem display_results_fallback_counterexample:
  "''Error: x'' \<noteq> [] \<and>
   extract_section ''Error: x'' ''Skills to Highlight'' = None \<and>
   extract_section ''Error: x'' ''Projects to Showcase'' = None \<and>
   extract_section ''Error: x'' ''Resume Objective'' = None \<and>
   extract_section ''Error: x'' ''Interview Preparation Tips'' = None \<and>
   raw_fallback ''Error: x'' \<notin> set (display_results ''Error: x'') \<and>
   raw_response ''Error: x'' \<notin> set (display_results ''Error: x'')"
  by code_simp

lemma startswith_append: "startswith (p @ s) p"
  by (induction p) auto

lemma contains_prefix: "contains (p @ s) p"
proof (cases "p @ s")
  case Nil
  then show ?thesis by simp
next
  case (Cons a l)
  have "startswith (p @ s) p" by (rule startswith_append)
  with Cons show ?thesis by simp
qed

text \<open>
  Claim C10. A text that starts with \<open>Error:\<close> or contains the analysis-failure marker
  is reported as a failed analysis and nothing else is shown: no section expander, no raw
  fallback. \<open>analyze_with_gemini\<close> returns a genuine response unchanged, so a response that
  begins with \<open>Error:\<close> is treated the same way; and both texts \<open>analyze_with_gemini\<close>
  returns on failure are recognised.
\<close>

theorem display_results_error_text:
  "(startswith analysis_text ''Error:'' \<or>
    contains analysis_text ''An error occurred during Gemini analysis:'' \<longrightarrow>
      display_results analysis_text =
        [St_Subheader ''Analysis Results'', St_Error (''Analysis failed: '' @ analysis_text)]) \<and>
   (truthy (session_state ''gemini_api_key'') \<and>
    service (the (session_state ''gemini_api_key''))
      (Analysis_Prompt github_data resume_text job_description role company) = Inr analysis_text \<longrightarrow>
      response (analyze_with_gemini session_state service github_data resume_text
                  job_description role company) = analysis_text) \<and>
   (\<not> truthy (session_state ''gemini_api_key'') \<or>
    service (the (session_state ''gemini_api_key''))
      (Analysis_Prompt github_data resume_text job_description role company) = Inl failure \<longrightarrow>
      display_results (response (analyze_with_gemini session_state service github_data resume_text
                  job_description role company)) =
        [St_Subheader ''Analysis Results'',
         St_Error (''Analysis failed: '' @
           response (analyze_with_gemini session_state service github_data resume_text
                  job_description role company))])"
proof (intro conjI impI)
  assume "startswith analysis_text ''Error:'' \<or>
    contains analysis_text ''An error occurred during Gemini analysis:''"
  then show "display_results analysis_text =
        [St_Subheader ''Analysis Results'', St_Error (''Analysis failed: '' @ analysis_text)]"
    by (simp add: display_results_def)
next
  assume "truthy (session_state ''gemini_api_key'') \<and>
    service (the (session_state ''gemini_api_key''))
      (Analysis_Prompt github_data resume_text job_description role company) = Inr analysis_text"
  then show "response (analyze_with_gemini session_state service github_data resume_text
                  job_description role company) = analysis_text"
    by (simp add: analyze_with_gemini_def generate_def)
next
  let ?r = "response (analyze_with_gemini session_state service github_data resume_text
                  job_description role company)"
  assume f: "\<not> truthy (session_state ''gemini_api_key'') \<or>
    service (the (session_state ''gemini_api_key''))
      (Analysis_Prompt github_data resume_text job_description role company) = Inl failure"
  have "startswith ?r ''Error:'' \<or> contains ?r ''An error occurred during Gemini analysis:''"
  proof (cases "truthy (session_state ''gemini_api_key'')")
    case False
    then have "?r = ''Error: Gemini API key is missing.''"
      by (simp add: analyze_with_gemini_def generate_def)
    then show ?thesis by simp
  next
    case True
    with f have "?r = ''An error occurred during Gemini analysis:'' @ '' '' @ snd failure"
      by (simp add: analyze_with_gemini_def generate_def split_def)
    then show ?thesis using contains_prefix by metis
  qed
  then show "display_results ?r = [St_Subheader ''Analysis Results'', St_Error (''Analysis failed: '' @ ?r)]"
    by (simp add: display_results_def)
qed

theorem display_results_error_text_witness:
  "startswith ''Error: 404 pages in plain words'' ''Error:'' \<and>
   response (analyze_with_gemini [''gemini_api_key'' \<mapsto> ''k'']
      (\<lambda>k p. Inr ''Error: 404 pages in plain words'') [] ''cv'' ''jd'' ''dev'' ''acme'')
     = ''Error: 404 pages in plain words'' \<and>
   display_results ''Error: 404 pages in plain words'' =
     [St_Subheader ''Analysis Results'',
      St_Error (''Analysis failed: '' @ ''Error: 404 pages in plain words'')]"
proof -
  have a: "startswith ''Error: 404 pages in plain words'' ''Error:''" by simp
  have b: "truthy ([''gemini_api_key'' \<mapsto> ''k''] ''gemini_api_key'')"
    by (simp add: truthy_def)
  note t = display_results_error_text[of "''Error: 404 pages in plain words''"
      "[''gemini_api_key'' \<mapsto> ''k'']" "\<lambda>k p. Inr ''Error: 404 pages in plain words''"
      "[]" "''cv''" "''jd''" "''dev''" "''acme''"]
  from t a b show ?thesis by simp
qed

text \<open>
  Claim C9. With the key missing from the session or empty, \<open>analyze_with_gemini\<close> and
  \<open>answer_with_gemini\<close> report the missing key, return the missing-key text and send no
  request to the service.
\<close>

theorem gemini_missing_key:
  assumes "\<not> truthy (session_state ''gemini_api_key'')"
  shows "analyze_with_gemini session_state service github_data resume_text job_description
           role company =
           \<lparr> response = ''Error: Gemini API key is missing.'',
             shown = [St_Error ''Gemini API key is missing. Please add it in the sidebar.''],
             requests = [] \<rparr> \<and>
         answer_with_gemini session_state service github_data resume_text question job_role
           company_name job_description =
           \<lparr> response = ''Error: Gemini API key is missing.'',
             shown = [St_Error ''Gemini API key is missing. Please add it in the sidebar.''],
             requests = [] \<rparr>"
  using assms by (simp add: analyze_with_gemini_def answer_with_gemini_def generate_def)

theorem gemini_missing_key_witness:
  "\<not> truthy (Map.empty ''gemini_api_key'') \<and> \<not> truthy ([''gemini_api_key'' \<mapsto> []] ''gemini_api_key'') \<and>
   requests (analyze_with_gemini Map.empty (\<lambda>k p. Inr ''ok'') [] ''cv'' ''jd'' ''dev'' ''acme'') = [] \<and>
   requests (answer_with_gemini [''gemini_api_key'' \<mapsto> []] (\<lambda>k p. Inr ''ok'') [] ''cv'' ''q''
              ''dev'' ''acme'' ''jd'') = [] \<and>
   requests (analyze_with_gemini [''gemini_api_key'' \<mapsto> ''k''] (\<lambda>k p. Inr ''ok'') [] ''cv'' ''jd''
              ''dev'' ''acme'') \<noteq> []"
proof -
  have a: "\<not> truthy (Map.empty ''gemini_api_key'')" by (simp add: truthy_def)
  have b: "\<not> truthy ([''gemini_api_key'' \<mapsto> []] ''gemini_api_key'')" by (simp add: truthy_def)
  have c: "requests (analyze_with_gemini [''gemini_api_key'' \<mapsto> ''k''] (\<lambda>k p. Inr ''ok'') []
             ''cv'' ''jd'' ''dev'' ''acme'') \<noteq> []"
    by (simp add: analyze_with_gemini_def generate_def truthy_def)
  note t1 = gemini_missing_key[where session_state = Map.empty and service = "\<lambda>k p. Inr ''ok''"
      and github_data = "[]" and resume_text = "''cv''" and job_description = "''jd''"
      and role = "''dev''" and company = "''acme''"]
  note t2 = gemini_missing_key[where session_state = "[''gemini_api_key'' \<mapsto> []]"
      and service = "\<lambda>k p. Inr ''ok''"
      and github_data = "[]" and resume_text = "''cv''" and job_description = "''jd''"
      and question = "''q''" and job_role = "''dev''" and company_name = "''acme''"]
  from t1 t2 a b c
  show ?thesis by simp
qed


section \<open>Properties of the repository fetch\<close>

lemma fetch_loop_result:
  "fetch_loop env p acc n = Inr (d, c, ev) \<Longrightarrow> n \<le> 50 \<Longrightarrow>
     d = acc @ map (make_repo_info env) (take (50 - n) (filter (\<lambda>r. \<not> repo_fork r) (listed p))) \<and>
     c = n + length (take (50 - n) (filter (\<lambda>r. \<not> repo_fork r) (listed p)))"
proof (induction p arbitrary: acc n)
  case Page_End
  then show ?case by simp
next
  case (Page_Item r p)
  show ?case
  proof (cases "repo_fork r")
    case True
    with Page_Item.prems have "fetch_loop env p acc n = Inr (d, c, ev)" by simp
    from Page_Item.IH[OF this Page_Item.prems(2)] True show ?thesis by simp
  next
    case False
    show ?thesis
    proof (cases "n = 50")
      case True
      with False Page_Item.prems show ?thesis by (simp add: max_repos_to_process_def)
    next
      case n: False
      with Page_Item.prems(2) have lt: "n < 50" by simp
      with False Page_Item.prems(1)
      have "fetch_loop env p (acc @ [make_repo_info env r]) (n + 1) = Inr (d, c, ev)"
        by (simp add: max_repos_to_process_def)
      from Page_Item.IH[OF this] lt
      have "d = (acc @ [make_repo_info env r]) @ map (make_repo_info env)
                  (take (50 - (n + 1)) (filter (\<lambda>r. \<not> repo_fork r) (listed p))) \<and>
            c = (n + 1) + length (take (50 - (n + 1)) (filter (\<lambda>r. \<not> repo_fork r) (listed p)))"
        by simp
      moreover from lt have "50 - n = Suc (50 - (n + 1))" by simp
      ultimately show ?thesis using False by simp
    qed
  qed
next
  case (Page_Raise e)
  then show ?case by simp
qed


lemma fetch_returned:
  "returned (fetch_github_repos env username inp) = [] \<or>
   (\<exists>user. get_user (client env (github_token env inp)) username = Inr user \<and>
      returned (fetch_github_repos env username inp) =
        map (make_repo_info env)
          (take 50 (filter (\<lambda>r. \<not> repo_fork r) (listed (get_repos user ''updated'' ''desc'')))))"
proof -
  let ?tok = "github_token env inp"
  obtain evs raised where oc: "open_client env ?tok = (evs, raised)" by (cases "open_client env ?tok")
  show ?thesis
  proof (cases raised)
    case (Some e)
    with oc show ?thesis by (simp add: fetch_github_repos_def Let_def)
  next
    case None
    show ?thesis
    proof (cases "get_user (client env ?tok) username")
      case (Inl e)
      with oc None show ?thesis by (simp add: fetch_github_repos_def Let_def)
    next
      case (Inr user)
      show ?thesis
      proof (cases "fetch_loop env (get_repos user ''updated'' ''desc'') [] 0")
        case (Inl e)
        with oc None Inr show ?thesis by (simp add: fetch_github_repos_def Let_def)
      next
        case res: (Inr x)
        obtain d c ev where x: "x = (d, c, ev)" by (cases x)
        from res x have "fetch_loop env (get_repos user ''updated'' ''desc'') [] 0 = Inr (d, c, ev)"
          by simp
        from fetch_loop_result[OF this]
        have "d = map (make_repo_info env)
                (take 50 (filter (\<lambda>r. \<not> repo_fork r) (listed (get_repos user ''updated'' ''desc''))))"
          by simp
        moreover from oc None Inr res x
        have "returned (fetch_github_repos env username inp) = d"
          by (simp add: fetch_github_repos_def Let_def)
        ultimately show ?thesis using Inr by simp
      qed
    qed
  qed
qed


text \<open>
  Claim C2. Whatever the user name, the credential and the answers of the service, the
  list \<open>fetch_github_repos\<close> returns has at most 50 entries and every README excerpt in
  it has at most 8000 characters; the list is empty or it is built, in order, from the
  first 50 repositories of the listing (requested most recently updated first) that are
  not forks.
\<close>

theorem fetch_bounds:
  "length (returned (fetch_github_repos env username inp)) \<le> 50 \<and>
   (\<forall>i \<in> set (returned (fetch_github_repos env username inp)). length (info_readme i) \<le> 8000) \<and>
   (returned (fetch_github_repos env username inp) = [] \<or>
    (\<exists>user. get_user (client env (github_token env inp)) username = Inr user \<and>
       returned (fetch_github_repos env username inp) =
         map (make_repo_info env)
           (take 50 (filter (\<lambda>r. \<not> repo_fork r)
                       (listed (get_repos user ''updated'' ''desc''))))))"
proof (intro conjI)
  let ?ret = "returned (fetch_github_repos env username inp)"
  note cases = fetch_returned[of env username inp]
  show "length ?ret \<le> 50"
  proof (rule disjE[OF cases])
    assume "?ret = []"
    then show ?thesis by simp
  next
    assume "\<exists>user. get_user (client env (github_token env inp)) username = Inr user \<and>
      ?ret = map (make_repo_info env)
          (take 50 (filter (\<lambda>r. \<not> repo_fork r) (listed (get_repos user ''updated'' ''desc''))))"
    then obtain rs where "?ret = map (make_repo_info env) (take 50 rs)" by blast
    then show ?thesis by simp
  qed
  show "\<forall>i \<in> set ?ret. length (info_readme i) \<le> 8000"
  proof (rule disjE[OF cases])
    assume "?ret = []"
    then show ?thesis by simp
  next
    assume "\<exists>user. get_user (client env (github_token env inp)) username = Inr user \<and>
      ?ret = map (make_repo_info env)
          (take 50 (filter (\<lambda>r. \<not> repo_fork r) (listed (get_repos user ''updated'' ''desc''))))"
    then obtain rs where r: "?ret = map (make_repo_info env) rs" by blast
    have "length (info_readme (make_repo_info env x)) \<le> 8000" for x
      by (simp add: make_repo_info_def)
    then show ?thesis unfolding r by simp
  qed
  show "?ret = [] \<or>
    (\<exists>user. get_user (client env (github_token env inp)) username = Inr user \<and>
       ?ret = map (make_repo_info env)
           (take 50 (filter (\<lambda>r. \<not> repo_fork r)
                       (listed (get_repos user ''updated'' ''desc'')))))"
    by (rule cases)
qed


theorem fetch_bounds_witness:
  "map info_name (returned (fetch_github_repos (example_env None Map.empty example_listing)
      ''octo'' (Some ''tok''))) = [''a'', ''c'', ''e''] \<and>
   length (returned (fetch_github_repos (example_env None Map.empty example_listing)
      ''octo'' (Some ''tok''))) \<le> 50"
proof -
  have a: "map info_name (returned (fetch_github_repos (example_env None Map.empty example_listing)
      ''octo'' (Some ''tok''))) = [''a'', ''c'', ''e'']"
    by code_simp
  from fetch_bounds[of "example_env None Map.empty example_listing" "''octo''" "Some ''tok''"] a
  show ?thesis by blast
qed

text \<open>
  Claim C8, as amended. A source counts only when its value is non-empty: a non-empty
  argument is used; otherwise a non-empty \<open>GITHUB_TOKEN\<close> of a readable secret store;
  otherwise the value of the environment variable; and the client is unauthenticated
  when the value so chosen is missing or empty.
\<close>

theorem github_token_priority:
  "(truthy inp \<longrightarrow> github_token env inp = inp) \<and>
   (\<not> truthy inp \<and> truthy (stored_secret env) \<longrightarrow> github_token env inp = stored_secret env) \<and>
   (\<not> truthy inp \<and> \<not> truthy (stored_secret env) \<longrightarrow>
      github_token env inp = environ env ''GITHUB_TOKEN'') \<and>
   client env (github_token env inp) =
     (if truthy (github_token env inp) then Github env (github_token env inp)
      else Github env None)"
proof (intro conjI impI)
  assume "truthy inp"
  then show "github_token env inp = inp" by (simp add: github_token_def)
next
  assume "\<not> truthy inp \<and> truthy (stored_secret env)"
  then show "github_token env inp = stored_secret env"
    by (auto simp: github_token_def stored_secret_def truthy_def split: option.splits)
next
  assume "\<not> truthy inp \<and> \<not> truthy (stored_secret env)"
  then show "github_token env inp = environ env ''GITHUB_TOKEN''"
    by (auto simp: github_token_def stored_secret_def truthy_def split: option.splits)
next
  show "client env (github_token env inp) =
     (if truthy (github_token env inp) then Github env (github_token env inp)
      else Github env None)"
    by (simp add: client_def)
qed

theorem github_token_priority_witness:
  "github_token (example_env (Some [''GITHUB_TOKEN'' \<mapsto> ''sec'']) [''GITHUB_TOKEN'' \<mapsto> ''envtok'']
       Page_End) (Some ''arg'') = Some ''arg'' \<and>
   github_token (example_env (Some [''GITHUB_TOKEN'' \<mapsto> ''sec'']) [''GITHUB_TOKEN'' \<mapsto> ''envtok'']
       Page_End) None = Some ''sec'' \<and>
   github_token (example_env None [''GITHUB_TOKEN'' \<mapsto> ''envtok''] Page_End) (Some []) =
     Some ''envtok'' \<and>
   github_token (example_env None Map.empty Page_End) None = None"
proof -
  let ?e1 = "example_env (Some [''GITHUB_TOKEN'' \<mapsto> ''sec'']) [''GITHUB_TOKEN'' \<mapsto> ''envtok''] Page_End"
  let ?e2 = "example_env None [''GITHUB_TOKEN'' \<mapsto> ''envtok''] Page_End"
  let ?e3 = "example_env None Map.empty Page_End"
  have s1: "stored_secret ?e1 = Some ''sec''" by (simp add: stored_secret_def example_env_def)
  have s2: "stored_secret ?e2 = None" by (simp add: stored_secret_def example_env_def)
  have s3: "stored_secret ?e3 = None" by (simp add: stored_secret_def example_env_def)
  have v2: "environ ?e2 ''GITHUB_TOKEN'' = Some ''envtok''" by (simp add: example_env_def)
  have v3: "environ ?e3 ''GITHUB_TOKEN'' = None" by (simp add: example_env_def)
  from github_token_priority[of "Some ''arg''" ?e1] github_token_priority[of None ?e1]
    github_token_priority[of "Some []" ?e2] github_token_priority[of None ?e3]
    s1 s2 s3 v2 v3
  show ?thesis by (simp add: truthy_def)
qed

text \<open>
  The claim as it is written fails when the secret store holds \<open>GITHUB_TOKEN\<close> with an
  empty value: the environment variable is used, not the stored value.
\<close>

theorem github_token_priority_counterexample:
  "\<not> truthy None \<and>
   stored_secret (example_env (Some [''GITHUB_TOKEN'' \<mapsto> []]) [''GITHUB_TOKEN'' \<mapsto> ''envtok'']
       Page_End) = Some [] \<and>
   github_token (example_env (Some [''GITHUB_TOKEN'' \<mapsto> []]) [''GITHUB_TOKEN'' \<mapsto> ''envtok'']
       Page_End) None = Some ''envtok''"
  by (simp add: truthy_def stored_secret_def github_token_def example_env_def)

lemma fetch_loop_forks_only:
  "completes p \<Longrightarrow> \<forall>r \<in> set (listed p). repo_fork r \<Longrightarrow>
   fetch_loop env p acc n = Inr (acc, n, [])"
  by (induction p arbitrary: acc n) simp_all

lemma open_client_token: "truthy token \<Longrightarrow> open_client env token = ([], None)"
  by (simp add: open_client_def)

lemma fetch_without_token:
  assumes "\<not> truthy (github_token env inp)"
  shows "fetch_github_repos env username inp =
           \<lparr> returned = [],
             events = [St_Error
               (''An unexpected error occurred while fetching GitHub repositories: '' @
                fst (icon_error env) @ '' - '' @ snd (icon_error env))] \<rparr>"
  using assms
  by (simp add: fetch_github_repos_def Let_def open_client_def sidebar_warning_icon_def
      handle_exception_def)

text \<open>
  Claim C3, as amended. When a non-empty credential is resolved, a user name the service
  does not know makes \<open>fetch_github_repos\<close> return the empty list after one error message
  that names the user; a user whose listing ends normally with forks only also makes it
  return the empty list, after one sidebar warning. The two calls differ in the message
  shown, not in the value returned.
\<close>

theorem fetch_user_not_found:
  assumes "truthy (github_token env inp)"
  shows "(get_user (client env (github_token env inp)) username = Inl UnknownObjectException \<longrightarrow>
            fetch_github_repos env username inp =
              \<lparr> returned = [],
                events = [St_Error (''GitHub user '' @ quote username @
                                    '' not found. Please check the username.'')] \<rparr>) \<and>
         (\<forall>user. get_user (client env (github_token env inp)) username = Inr user \<and>
                 completes (get_repos user ''updated'' ''desc'') \<and>
                 (\<forall>r \<in> set (listed (get_repos user ''updated'' ''desc'')). repo_fork r) \<longrightarrow>
            fetch_github_repos env username inp =
              \<lparr> returned = [],
                events = [Sidebar_Warning
                            (''No non-forked public repositories found for user '' @
                             quote username @ ''.'')] \<rparr>)"
proof (intro conjI impI allI)
  from assms have oc: "open_client env (github_token env inp) = ([], None)"
    by (rule open_client_token)
  {
    assume "get_user (client env (github_token env inp)) username = Inl UnknownObjectException"
    with oc show "fetch_github_repos env username inp =
              \<lparr> returned = [],
                events = [St_Error (''GitHub user '' @ quote username @
                                    '' not found. Please check the username.'')] \<rparr>"
      by (simp add: fetch_github_repos_def Let_def handle_exception_def)
  }
  fix user
  assume a: "get_user (client env (github_token env inp)) username = Inr user \<and>
                 completes (get_repos user ''updated'' ''desc'') \<and>
                 (\<forall>r \<in> set (listed (get_repos user ''updated'' ''desc'')). repo_fork r)"
  then have "fetch_loop env (get_repos user ''updated'' ''desc'') [] 0 = Inr ([], 0, [])"
    by (simp add: fetch_loop_forks_only)
  with oc a show "fetch_github_repos env username inp =
              \<lparr> returned = [],
                events = [Sidebar_Warning
                            (''No non-forked public repositories found for user '' @
                             quote username @ ''.'')] \<rparr>"
    by (simp add: fetch_github_repos_def Let_def)
qed

theorem fetch_user_not_found_witness:
  "truthy (github_token (example_env None Map.empty forks_only) (Some ''tok'')) \<and>
   fetch_github_repos (example_env None Map.empty forks_only) ''ghost'' (Some ''tok'') =
     \<lparr> returned = [],
       events = [St_Error (''GitHub user '' @ quote ''ghost'' @
                            '' not found. Please check the username.'')] \<rparr> \<and>
   fetch_github_repos (example_env None Map.empty forks_only) ''octo'' (Some ''tok'') =
     \<lparr> returned = [],
       events = [Sidebar_Warning (''No non-forked public repositories found for user '' @
                                  quote ''octo'' @ ''.'')] \<rparr>"
proof -
  let ?e = "example_env None Map.empty forks_only"
  have tok: "github_token ?e (Some ''tok'') = Some ''tok''"
    by (simp add: github_token_def truthy_def)
  have t: "truthy (github_token ?e (Some ''tok''))"
    by (simp add: tok truthy_def)
  have g: "get_user (client ?e (github_token ?e (Some ''tok''))) ''ghost'' = Inl UnknownObjectException"
    by (simp add: tok client_def example_env_def)
  have o: "get_user (client ?e (github_token ?e (Some ''tok''))) ''octo'' =
             Inr \<lparr> get_repos = (\<lambda>sort direction. forks_only) \<rparr>"
    by (simp add: tok client_def example_env_def)
  have f: "completes forks_only \<and> (\<forall>r \<in> set (listed forks_only). repo_fork r)"
    by (simp add: forks_only_def example_repo_def)
  from fetch_user_not_found[OF t, of "''ghost''"] g
  have 1: "fetch_github_repos ?e ''ghost'' (Some ''tok'') =
     \<lparr> returned = [],
       events = [St_Error (''GitHub user '' @ quote ''ghost'' @
                            '' not found. Please check the username.'')] \<rparr>"
    by blast
  from fetch_user_not_found[OF t, of "''octo''"] o f
  have 2: "fetch_github_repos ?e ''octo'' (Some ''tok'') =
     \<lparr> returned = [],
       events = [Sidebar_Warning (''No non-forked public repositories found for user '' @
                                  quote ''octo'' @ ''.'')] \<rparr>"
    by simp
  from t 1 2 show ?thesis by simp
qed

text \<open>
  The claim as it is written fails: for an unknown user and for a known user without
  repositories of their own the function returns the same value.
\<close>

theorem fetch_user_not_found_counterexample:
  "get_user (Github (example_env None Map.empty forks_only) (Some ''tok'')) ''ghost'' =
     Inl UnknownObjectException \<and>
   get_user (Github (example_env None Map.empty forks_only) (Some ''tok'')) ''octo'' =
     Inr \<lparr> get_repos = (\<lambda>sort direction. forks_only) \<rparr> \<and>
   returned (fetch_github_repos (example_env None Map.empty forks_only) ''ghost'' (Some ''tok'')) =
   returned (fetch_github_repos (example_env None Map.empty forks_only) ''octo'' (Some ''tok''))"
proof -
  let ?e = "example_env None Map.empty forks_only"
  have g: "get_user (Github ?e (Some ''tok'')) ''ghost'' = Inl UnknownObjectException"
    by (simp add: example_env_def)
  have o: "get_user (Github ?e (Some ''tok'')) ''octo'' =
             Inr \<lparr> get_repos = (\<lambda>sort direction. forks_only) \<rparr>"
    by (simp add: example_env_def)
  have r1: "returned (fetch_github_repos ?e ''ghost'' (Some ''tok'')) = []"
    by code_simp
  have r2: "returned (fetch_github_repos ?e ''octo'' (Some ''tok'')) = []"
    by code_simp
  from g o r1 r2 show ?thesis by simp
qed


lemma without_readmes_snoc:
  "without_readmes acc' = without_readmes acc \<Longrightarrow>
   without_readmes (acc' @ [make_repo_info env' (r\<lparr>get_readme := x\<rparr>)]) =
   without_readmes (acc @ [make_repo_info env r])"
  by (simp add: without_readmes_def make_repo_info_def)

lemma fetch_loop_readmes:
  "without_readmes acc' = without_readmes acc \<Longrightarrow>
   map_sum id (\<lambda>(d, c, ev). (without_readmes d, c, ev))
     (fetch_loop env' (set_readmes f p) acc' n) =
   map_sum id (\<lambda>(d, c, ev). (without_readmes d, c, ev)) (fetch_loop env p acc n)"
proof (induction p arbitrary: acc acc' n)
  case Page_End
  then show ?case by simp
next
  case (Page_Item r p)
  show ?case
  proof (cases "repo_fork r")
    case True
    with Page_Item show ?thesis by simp
  next
    case False
    show ?thesis
    proof (cases "n \<ge> max_repos_to_process")
      case True
      with False Page_Item.prems show ?thesis by simp
    next
      case n: False
      have "without_readmes (acc' @ [make_repo_info env' (r\<lparr>get_readme := f r\<rparr>)]) =
            without_readmes (acc @ [make_repo_info env r])"
        using Page_Item.prems by (rule without_readmes_snoc)
      from Page_Item.IH[OF this, of "n + 1"] False n show ?thesis by simp
    qed
  qed
next
  case (Page_Raise e)
  then show ?case by simp
qed

lemma fetch_loop_readmes_cases:
  "(\<exists>e. fetch_loop env' (set_readmes f p) [] 0 = Inl e \<and> fetch_loop env p [] 0 = Inl e) \<or>
   (\<exists>d' d c ev. fetch_loop env' (set_readmes f p) [] 0 = Inr (d', c, ev) \<and>
       fetch_loop env p [] 0 = Inr (d, c, ev) \<and> without_readmes d' = without_readmes d)"
proof -
  have eq: "map_sum id (\<lambda>(d, c, ev). (without_readmes d, c, ev))
     (fetch_loop env' (set_readmes f p) [] 0) =
   map_sum id (\<lambda>(d, c, ev). (without_readmes d, c, ev)) (fetch_loop env p [] 0)"
    by (rule fetch_loop_readmes) simp
  show ?thesis
  proof (cases "fetch_loop env p [] 0")
    case (Inl e)
    with eq have "fetch_loop env' (set_readmes f p) [] 0 = Inl e"
      by (cases "fetch_loop env' (set_readmes f p) [] 0") auto
    with Inl show ?thesis by simp
  next
    case (Inr x)
    obtain d c ev where x: "x = (d, c, ev)" by (cases x)
    with eq Inr obtain d' where "fetch_loop env' (set_readmes f p) [] 0 = Inr (d', c, ev)"
      "without_readmes d' = without_readmes d"
      by (cases "fetch_loop env' (set_readmes f p) [] 0") auto
    with Inr x show ?thesis by simp
  qed
qed

lemma without_readmes_Nil: "without_readmes d' = without_readmes d \<Longrightarrow> d' = [] \<longleftrightarrow> d = []"
  by (cases d; cases d') (simp_all add: without_readmes_def)

lemma with_readmes_fields:
  "secrets (with_readmes f env) = secrets env"
  "environ (with_readmes f env) = environ env"
  "icon_error (with_readmes f env) = icon_error env"
  "get_rate_limit (Github (with_readmes f env) t) = get_rate_limit (Github env t)"
  "get_user (Github (with_readmes f env) t) u =
      (case get_user (Github env t) u of
         Inl e \<Rightarrow> Inl e
       | Inr user \<Rightarrow>
           Inr (user\<lparr>get_repos := \<lambda>sort direction.
                  set_readmes f (get_repos user sort direction)\<rparr>))"
  by (simp_all add: with_readmes_def)

lemma fetch_with_readmes:
  "events (fetch_github_repos (with_readmes f env) username inp) =
     events (fetch_github_repos env username inp) \<and>
   without_readmes (returned (fetch_github_repos (with_readmes f env) username inp)) =
     without_readmes (returned (fetch_github_repos env username inp))"
proof -
  let ?env' = "with_readmes f env"
  let ?tok = "github_token env inp"
  have tok: "github_token ?env' inp = ?tok"
    by (simp add: github_token_def Let_def with_readmes_fields)
  have oc: "open_client ?env' ?tok = open_client env ?tok"
    by (simp add: open_client_def sidebar_warning_icon_def client_def with_readmes_fields)
  have gu: "get_user (client ?env' ?tok) username =
      (case get_user (client env ?tok) username of
         Inl e \<Rightarrow> Inl e
       | Inr user \<Rightarrow>
           Inr (user\<lparr>get_repos := \<lambda>sort direction.
                  set_readmes f (get_repos user sort direction)\<rparr>))"
    by (simp add: client_def with_readmes_fields)
  obtain evs raised where o: "open_client env ?tok = (evs, raised)"
    by (cases "open_client env ?tok")
  show ?thesis
  proof (cases raised)
    case (Some e)
    with o oc tok show ?thesis
      by (simp add: fetch_github_repos_def Let_def without_readmes_def)
  next
    case None
    show ?thesis
    proof (cases "get_user (client env ?tok) username")
      case (Inl e)
      with gu have "get_user (client ?env' ?tok) username = Inl e" by simp
      with Inl None o oc tok show ?thesis
        by (simp add: fetch_github_repos_def Let_def without_readmes_def)
    next
      case (Inr user)
      let ?p = "get_repos user ''updated'' ''desc''"
      let ?user' = "user\<lparr>get_repos := \<lambda>sort direction.
                  set_readmes f (get_repos user sort direction)\<rparr>"
      from gu Inr have gu': "get_user (client ?env' ?tok) username = Inr ?user'" by simp
      have p': "get_repos ?user' ''updated'' ''desc'' = set_readmes f ?p" by simp
      from fetch_loop_readmes_cases[of ?env' f ?p env]
      show ?thesis
      proof (elim disjE exE conjE)
        fix e
        assume "fetch_loop ?env' (set_readmes f ?p) [] 0 = Inl e" "fetch_loop env ?p [] 0 = Inl e"
        with Inr gu' p' None o oc tok show ?thesis
          by (simp add: fetch_github_repos_def Let_def without_readmes_def del: gh_user.simps)
      next
        fix d' d c ev
        assume l: "fetch_loop ?env' (set_readmes f ?p) [] 0 = Inr (d', c, ev)"
          "fetch_loop env ?p [] 0 = Inr (d, c, ev)" and w: "without_readmes d' = without_readmes d"
        from w have "d' = [] \<longleftrightarrow> d = []" by (rule without_readmes_Nil)
        with l w Inr gu' p' None o oc tok show ?thesis
          by (simp add: fetch_github_repos_def Let_def del: gh_user.simps)
      qed
    qed
  qed
qed

text \<open>
  Claim C7. A repository whose README cannot be fetched or decoded gets an empty excerpt,
  with its name and description as for any other repository; and replacing the outcome
  of every README request by any other outcome, failures included, changes neither the
  messages of the fetch nor the repositories in its result: a README failure never fails
  the fetch.
\<close>

theorem readme_failure_swallowed:
  "(readme_fails env r \<longrightarrow>
      make_repo_info env r =
        \<lparr> info_name = repo_name r,
          info_description = (if truthy (repo_description r) then the (repo_description r)
                              else ''No description provided.''),
          info_readme = [] \<rparr>) \<and>
   events (fetch_github_repos (with_readmes f env) username inp) =
     events (fetch_github_repos env username inp) \<and>
   without_readmes (returned (fetch_github_repos (with_readmes f env) username inp)) =
     without_readmes (returned (fetch_github_repos env username inp))"
proof (intro conjI impI)
  assume "readme_fails env r"
  then have "readme_content env r = []"
    by (auto simp: readme_fails_def readme_content_def split: readme_outcome.splits)
  then show "make_repo_info env r =
        \<lparr> info_name = repo_name r,
          info_description = (if truthy (repo_description r) then the (repo_description r)
                              else ''No description provided.''),
          info_readme = [] \<rparr>"
    by (simp add: make_repo_info_def)
next
  show "events (fetch_github_repos (with_readmes f env) username inp) =
     events (fetch_github_repos env username inp)"
    using fetch_with_readmes by (rule conjunct1)
next
  show "without_readmes (returned (fetch_github_repos (with_readmes f env) username inp)) =
     without_readmes (returned (fetch_github_repos env username inp))"
    using fetch_with_readmes by (rule conjunct2)
qed

theorem readme_failure_swallowed_witness:
  "readme_fails (example_env None Map.empty example_listing)
     (example_repo ''e'' False (Readme_Content ''!'')) \<and>
   returned (fetch_github_repos (example_env None Map.empty example_listing) ''octo''
               (Some ''tok'')) =
     [\<lparr> info_name = ''a'', info_description = ''No description provided.'',
        info_readme = ''alpha'' \<rparr>,
      \<lparr> info_name = ''c'', info_description = ''No description provided.'',
        info_readme = [] \<rparr>,
      \<lparr> info_name = ''e'', info_description = ''No description provided.'',
        info_readme = [] \<rparr>] \<and>
   make_repo_info (example_env None Map.empty example_listing)
     (example_repo ''e'' False (Readme_Content ''!'')) =
     \<lparr> info_name = ''e'', info_description = ''No description provided.'',
       info_readme = [] \<rparr> \<and>
   events (fetch_github_repos
      (with_readmes (\<lambda>r. Readme_Exception) (example_env None Map.empty example_listing))
      ''octo'' (Some ''tok'')) = []"
proof -
  let ?e = "example_env None Map.empty example_listing"
  let ?r = "example_repo ''e'' False (Readme_Content ''!'')"
  have a: "readme_fails ?e ?r"
    by (simp add: readme_fails_def example_env_def example_repo_def)
  have b: "returned (fetch_github_repos ?e ''octo'' (Some ''tok'')) =
     [\<lparr> info_name = ''a'', info_description = ''No description provided.'',
        info_readme = ''alpha'' \<rparr>,
      \<lparr> info_name = ''c'', info_description = ''No description provided.'',
        info_readme = [] \<rparr>,
      \<lparr> info_name = ''e'', info_description = ''No description provided.'',
        info_readme = [] \<rparr>]"
    by code_simp
  have c: "events (fetch_github_repos ?e ''octo'' (Some ''tok'')) = []"
    by code_simp
  have d: "repo_name ?r = ''e'' \<and> \<not> truthy (repo_description ?r)"
    by (simp add: example_repo_def truthy_def)
  note t = readme_failure_swallowed[of ?e ?r "\<lambda>r. Readme_Exception" "''octo''" "Some ''tok''"]
  from t a b c d show ?thesis by simp
qed


end
